theory Spec2Isabelle
  imports Complex_Main "HOL-Library.AList" "HOL-Library.Char_ord" "HOL-Library.List_Lexorder"
begin

section \<open>JavaScript values used by the preprocessing script\<close>

text \<open>
  A JavaScript number is modelled as an exact real number or \<open>NaN\<close>. Rounding to doubles and
  the two infinities are outside this model; every number the script computes from
  digit strings of a timetable is an integer or a half-integer far below \<open>2^53\<close>, where
  double arithmetic is exact.
\<close>

datatype jsnum = Num real | NaN

fun js_add :: "jsnum \<Rightarrow> jsnum \<Rightarrow> jsnum" where
  "js_add (Num a) (Num b) = Num (a + b)"
| "js_add _ _ = NaN"

fun js_sub :: "jsnum \<Rightarrow> jsnum \<Rightarrow> jsnum" where
  "js_sub (Num a) (Num b) = Num (a - b)"
| "js_sub _ _ = NaN"

fun js_mul :: "jsnum \<Rightarrow> jsnum \<Rightarrow> jsnum" where
  "js_mul (Num a) (Num b) = Num (a * b)"
| "js_mul _ _ = NaN"

text \<open>\<open>x / 2\<close>, the only division of the script.\<close>

fun js_half :: "jsnum \<Rightarrow> jsnum" where
  "js_half (Num a) = Num (a / 2)"
| "js_half NaN = NaN"

text \<open>\<open>a < b\<close> and \<open>a > b\<close>: false as soon as one side is \<open>NaN\<close>.\<close>

fun js_lt :: "jsnum \<Rightarrow> jsnum \<Rightarrow> bool" where
  "js_lt (Num a) (Num b) = (a < b)"
| "js_lt _ _ = False"

fun js_gt :: "jsnum \<Rightarrow> jsnum \<Rightarrow> bool" where
  "js_gt (Num a) (Num b) = (a > b)"
| "js_gt _ _ = False"

text \<open>\<open>Math.round\<close>: the nearest integer, a tie going up; \<open>NaN\<close> stays \<open>NaN\<close>.\<close>

fun Math_round :: "jsnum \<Rightarrow> jsnum" where
  "Math_round (Num a) = Num (of_int \<lfloor>a + 1 / 2\<rfloor>)"
| "Math_round NaN = NaN"

text \<open>
  A value that may be \<open>undefined\<close>: a cell read from a row (\<open>row[i]\<close> past the end of the
  row, or at index \<open>-1\<close>), a missing map entry, a missing part of a destructured array.
\<close>

type_synonym cell = "string option"

definition cell_at :: "'a list \<Rightarrow> int \<Rightarrow> 'a option" where
  "cell_at row i = (if 0 \<le> i \<and> i < int (length row) then Some (row ! nat i) else None)"

text \<open>\<open>undefined\<close> in arithmetic is \<open>NaN\<close>.\<close>

definition num_at :: "jsnum list \<Rightarrow> int \<Rightarrow> jsnum" where
  "num_at xs i = (case cell_at xs i of None \<Rightarrow> NaN | Some x \<Rightarrow> x)"

text \<open>Truthiness of a string or \<open>undefined\<close>: a defined, non-empty string.\<close>

definition truthy :: "cell \<Rightarrow> bool" where
  "truthy c = (case c of None \<Rightarrow> False | Some s \<Rightarrow> s \<noteq> [])"

text \<open>A value inside a template literal: \<open>undefined\<close> prints as the word.\<close>

definition template :: "cell \<Rightarrow> string" where
  "template c = (case c of None \<Rightarrow> ''undefined'' | Some s \<Rightarrow> s)"

text \<open>\<open>Array.prototype.indexOf\<close>: the first index of the element, or \<open>-1\<close>.\<close>

fun indexOf :: "'a list \<Rightarrow> 'a \<Rightarrow> int" where
  "indexOf [] x = -1"
| "indexOf (y # ys) x = (if y = x then 0 else (let i = indexOf ys x in if i < 0 then -1 else i + 1))"

text \<open>\<open>String.prototype.split\<close> on a one-character separator.\<close>

fun split_on :: "char \<Rightarrow> string \<Rightarrow> string list" where
  "split_on sep [] = [[]]"
| "split_on sep (c # cs) =
     (if c = sep then [] # split_on sep cs
      else (case split_on sep cs of [] \<Rightarrow> [[c]] | w # ws \<Rightarrow> (c # w) # ws))"

text \<open>\<open>String.prototype.trim\<close>, on the ASCII white space and line terminators.\<close>

definition is_space :: "char \<Rightarrow> bool" where
  "is_space c = (c \<in> set [CHR 0x09, CHR 0x0A, CHR 0x0B, CHR 0x0C, CHR 0x0D, CHR 0x20])"

definition trim :: "string \<Rightarrow> string" where
  "trim s = rev (dropWhile is_space (rev (dropWhile is_space s)))"

definition is_digit :: "char \<Rightarrow> bool" where
  "is_digit c = (c \<in> set ''0123456789'')"

definition digits_value :: "string \<Rightarrow> nat" where
  "digits_value s = foldl (\<lambda>n c. 10 * n + (of_char c - 48)) 0 s"

text \<open>
  \<open>Number(s)\<close> on the strings a timetable field holds: surrounding blanks are dropped,
  a run of decimal digits is its value and the empty string is 0. Every other string
  is taken to \<open>NaN\<close>; the signs, fractions, exponents, radix prefixes and \<open>Infinity\<close>
  that JavaScript also reads are outside this model, and no result below depends on
  them.
\<close>

definition Number_js :: "string \<Rightarrow> jsnum" where
  "Number_js s =
     (let t = trim s in if list_all is_digit t then Num (of_nat (digits_value t)) else NaN)"

text \<open>
  \<open>parseInt(s, 10)\<close>: leading blanks are skipped, then an optional sign and the longest
  run of digits; no digit gives \<open>NaN\<close>, as does \<open>undefined\<close>.
\<close>

definition parseInt10 :: "cell \<Rightarrow> jsnum" where
  "parseInt10 c =
     (case c of None \<Rightarrow> NaN
      | Some s \<Rightarrow>
          (let t = dropWhile is_space s;
               neg = (t \<noteq> [] \<and> hd t = CHR ''-'');
               u = (if t \<noteq> [] \<and> (hd t = CHR ''-'' \<or> hd t = CHR ''+'') then tl t else t);
               ds = takeWhile is_digit u
           in if ds = [] then NaN
              else if neg then Num (- of_nat (digits_value ds)) else Num (of_nat (digits_value ds))))"

text \<open>
  \<open>Array.prototype.sort\<close> with a comparator, as a stable insertion sort: \<open>x\<close> goes behind
  \<open>y\<close> only when \<open>cmp x y > 0\<close>. A comparator that returns \<open>NaN\<close> is inconsistent and
  JavaScript leaves the order to the engine; this definition fixes one such order.
\<close>

fun insert_cmp :: "('a \<Rightarrow> 'a \<Rightarrow> jsnum) \<Rightarrow> 'a \<Rightarrow> 'a list \<Rightarrow> 'a list" where
  "insert_cmp cmp x [] = [x]"
| "insert_cmp cmp x (y # ys) =
     (if js_gt (cmp x y) (Num 0) then y # insert_cmp cmp x ys else x # y # ys)"

definition sort_cmp :: "('a \<Rightarrow> 'a \<Rightarrow> jsnum) \<Rightarrow> 'a list \<Rightarrow> 'a list" where
  "sort_cmp cmp xs = foldr (insert_cmp cmp) xs []"

section \<open>The data model\<close>

text \<open>
  The declarations of \<open>Station\<close>, \<open>Edge\<close> and \<open>ProcessedNetwork\<close> (\<open>types/network.ts\<close>)
  are not among the sources. Their fields are those of the object literals of
  \<open>preprocess-gtfs.ts\<close> (lines 122-129, 268-273 and 280), which agree with section 3 of
  the specification; the field \<open>id\<close> of a station is \<open>station_id\<close> here. The texts and
  numbers are type parameters: the preprocessing script builds them from cells that
  may be \<open>undefined\<close> and from numbers that may be \<open>NaN\<close>, the routing reads strings and
  whole seconds.
\<close>

record reachableStation =
  stationId :: string
  travelTimeSec :: int

record startStation =
  stationId :: string
  remainingTimeSec :: int

record ('txt, 'coord) station =
  station_id :: 'txt
  name :: 'txt
  lat :: 'coord
  lon :: 'coord
  accessible :: bool
  routesServed :: "string list"

record ('txt, 'num) edge =
  fromId :: 'txt
  toId :: 'txt
  travelTimeSec :: 'num
  routeId :: 'txt

record ('txt, 'coord, 'num) network =
  stations :: "('txt, 'coord) station list"
  edges :: "('txt, 'num) edge list"

section \<open>preprocess-gtfs.ts\<close>

datatype error = ENOENT string | TypeError

text \<open>\<open>parseCSV\<close>: the loop over the characters of one line.\<close>

fun parseLine :: "string \<Rightarrow> string list \<Rightarrow> string \<Rightarrow> bool \<Rightarrow> string list" where
  "parseLine [] result current inQuotes = result @ [current]"
| "parseLine (c # cs) result current inQuotes =
     (if c = CHR 0x22 then parseLine cs result current (\<not> inQuotes)
      else if c = CHR '','' \<and> \<not> inQuotes then parseLine cs (result @ [current]) [] inQuotes
      else parseLine cs result (current @ [c]) inQuotes)"

text \<open>
  The file system is a map from the file's name inside the feed directory to its
  content; \<open>readFileSync\<close> throws on a missing file.
\<close>

definition parseCSV :: "(string \<rightharpoonup> string) \<Rightarrow> string \<Rightarrow> error + string list list" where
  "parseCSV fs filePath =
     (case fs filePath of None \<Rightarrow> Inl (ENOENT filePath)
      | Some content \<Rightarrow>
          Inr (map (\<lambda>line. parseLine line [] [] False) (split_on CHR 0x0A (trim content))))"

text \<open>\<open>timeToSeconds\<close>: \<open>split\<close> of \<open>undefined\<close> throws a TypeError.\<close>

definition timeToSeconds :: "cell \<Rightarrow> error + jsnum" where
  "timeToSeconds timeStr =
     (case timeStr of None \<Rightarrow> Inl TypeError
      | Some s \<Rightarrow>
          (let parts = map Number_js (split_on CHR '':'' s);
               hours = num_at parts 0; minutes = num_at parts 1; seconds = num_at parts 2
           in Inr (js_add (js_add (js_mul hours (Num 3600)) (js_mul minutes (Num 60))) seconds)))"

definition median :: "jsnum list \<Rightarrow> jsnum" where
  "median numbers =
     (let sorted = sort_cmp js_sub numbers;
          mid = int (length sorted div 2)
      in if length sorted mod 2 = 0
         then js_half (js_add (num_at sorted (mid - 1)) (num_at sorted mid))
         else num_at sorted mid)"

text \<open>Lines 241-247: the travel time of one consecutive pair, corrected for midnight.\<close>

definition adjustedTravelTime :: "cell \<Rightarrow> cell \<Rightarrow> error + jsnum" where
  "adjustedTravelTime departureTime arrivalTime =
     (case timeToSeconds departureTime of Inl e \<Rightarrow> Inl e
      | Inr fromTime \<Rightarrow>
          (case timeToSeconds arrivalTime of Inl e \<Rightarrow> Inl e
           | Inr toTime \<Rightarrow>
               (let travelTime = js_sub toTime fromTime
                in Inr (if js_lt travelTime (Num 0) then js_add travelTime (Num 86400)
                        else travelTime))))"

text \<open>Lines 264-274: one edge for each entry of \<open>edgeTravelTimes\<close>.\<close>

definition edgeOfEntry :: "string \<times> jsnum list \<Rightarrow> (cell, jsnum) edge" where
  "edgeOfEntry entry =
     (let parts = split_on CHR ''|'' (fst entry);
          medianTime = median (snd entry)
      in \<lparr>fromId = cell_at parts 0, toId = cell_at parts 1,
          travelTimeSec = Math_round medianTime, routeId = cell_at parts 2\<rparr>)"

definition aggregateEdges :: "(string \<times> jsnum list) list \<Rightarrow> (cell, jsnum) edge list" where
  "aggregateEdges edgeTravelTimes = map edgeOfEntry edgeTravelTimes"

text \<open>
  \<open>parseFloat\<close> of a coordinate cell: a floating-point conversion, kept uninterpreted.
\<close>

datatype coord = ParseFloat cell

record stopTime =
  stopId :: cell
  arrivalTime :: cell
  departureTime :: cell
  sequence :: jsnum

text \<open>\<open>m.get(k)\<close> on a map of cells: a missing entry is \<open>undefined\<close>.\<close>

definition map_get :: "('k \<times> cell) list \<Rightarrow> 'k \<Rightarrow> cell" where
  "map_get m k = (case map_of m k of None \<Rightarrow> None | Some v \<Rightarrow> v)"

text \<open>\<open>m.get(k)\<close> on a map of arrays, read where the script has just made sure of an entry.\<close>

definition entries_of :: "('k \<times> 'v list) list \<Rightarrow> 'k \<Rightarrow> 'v list" where
  "entries_of m k = (case map_of m k of None \<Rightarrow> [] | Some vs \<Rightarrow> vs)"

text \<open>\<open>Set.prototype.add\<close> on a set kept in insertion order.\<close>

definition set_add :: "'a \<Rightarrow> 'a list \<Rightarrow> 'a list" where
  "set_add x xs = (if x \<in> set xs then xs else xs @ [x])"

text \<open>\<open>stopToParent.get(stopId) || stopId\<close>.\<close>

definition parentOf :: "(cell \<times> cell) list \<Rightarrow> cell \<Rightarrow> cell" where
  "parentOf stopToParent stop =
     (let p = map_get stopToParent stop in if truthy p then p else stop)"

text \<open>First pass (lines 110-134): parent stations, and child stops mapped to their parent.\<close>

definition scanStop ::
  "string list \<Rightarrow> (cell \<times> cell) list \<times> (cell \<times> (cell, coord) station) list \<Rightarrow> string list
   \<Rightarrow> (cell \<times> cell) list \<times> (cell \<times> (cell, coord) station) list" where
  "scanStop stopsHeader maps row =
     (case maps of (stopToParent, stationsMap) \<Rightarrow>
        (let stopId = cell_at row (indexOf stopsHeader ''stop_id'');
             locationType = cell_at row (indexOf stopsHeader ''location_type'');
             parentStation = cell_at row (indexOf stopsHeader ''parent_station'')
         in if locationType = Some ''1''
            then (stopToParent,
                  AList.update stopId
                    \<lparr>station_id = stopId,
                     name = cell_at row (indexOf stopsHeader ''stop_name''),
                     lat = ParseFloat (cell_at row (indexOf stopsHeader ''stop_lat'')),
                     lon = ParseFloat (cell_at row (indexOf stopsHeader ''stop_lon'')),
                     accessible = False, routesServed = []\<rparr> stationsMap)
            else if truthy parentStation
            then (AList.update stopId parentStation stopToParent, stationsMap)
            else (stopToParent, stationsMap)))"

text \<open>Lines 140-155: \<open>trip_id -> route_id\<close> and \<open>route_id -> route_short_name\<close>.\<close>

definition scanPair :: "string list \<Rightarrow> string \<Rightarrow> string \<Rightarrow> (cell \<times> cell) list \<Rightarrow> string list
   \<Rightarrow> (cell \<times> cell) list" where
  "scanPair header keyColumn valueColumn m row =
     AList.update (cell_at row (indexOf header keyColumn))
       (cell_at row (indexOf header valueColumn)) m"

text \<open>Lines 158-177: the route names seen at each parent station.\<close>

definition scanRoutes ::
  "string list \<Rightarrow> (cell \<times> cell) list \<Rightarrow> (cell \<times> cell) list \<Rightarrow> (cell \<times> cell) list
   \<Rightarrow> (cell \<times> string list) list \<Rightarrow> string list \<Rightarrow> (cell \<times> string list) list" where
  "scanRoutes stopTimesHeader stopToParent tripToRoute routeIdToShortName stopToRoutes row =
     (let tripId = cell_at row (indexOf stopTimesHeader ''trip_id'');
          stopId = cell_at row (indexOf stopTimesHeader ''stop_id'');
          parentId = parentOf stopToParent stopId;
          routeId = map_get tripToRoute tripId
      in if truthy routeId
         then (case map_get routeIdToShortName routeId of
                 None \<Rightarrow> stopToRoutes
               | Some routeShortName \<Rightarrow>
                   if routeShortName \<noteq> []
                   then AList.update parentId
                          (set_add routeShortName (entries_of stopToRoutes parentId)) stopToRoutes
                   else stopToRoutes)
         else stopToRoutes)"

text \<open>
  Lines 180-185. \<open>Array.prototype.sort\<close> without a comparator orders strings by their
  code units, here the lexicographic order of the characters.
\<close>

definition withRoutes ::
  "(cell \<times> string list) list \<Rightarrow> cell \<times> (cell, coord) station \<Rightarrow> (cell, coord) station" where
  "withRoutes stopToRoutes entry =
     (case map_of stopToRoutes (fst entry) of
        None \<Rightarrow> snd entry
      | Some routesSet \<Rightarrow> (snd entry)\<lparr>routesServed := sort routesSet\<rparr>)"

text \<open>Lines 201-219: the stop times of each trip, in file order.\<close>

definition scanStopTime ::
  "string list \<Rightarrow> (cell \<times> stopTime list) list \<Rightarrow> string list \<Rightarrow> (cell \<times> stopTime list) list" where
  "scanStopTime stopTimesHeader tripStopTimes row =
     (let tripId = cell_at row (indexOf stopTimesHeader ''trip_id'')
      in AList.update tripId
           (entries_of tripStopTimes tripId @
            [\<lparr>stopId = cell_at row (indexOf stopTimesHeader ''stop_id''),
              arrivalTime = cell_at row (indexOf stopTimesHeader ''arrival_time''),
              departureTime = cell_at row (indexOf stopTimesHeader ''departure_time''),
              sequence = parseInt10 (cell_at row (indexOf stopTimesHeader ''stop_sequence''))\<rparr>])
           tripStopTimes)"

text \<open>A loop whose body may throw.\<close>

fun foldE :: "('s \<Rightarrow> 'a \<Rightarrow> error + 's) \<Rightarrow> 's \<Rightarrow> 'a list \<Rightarrow> error + 's" where
  "foldE f s [] = Inr s"
| "foldE f s (x # xs) = (case f s x of Inl e \<Rightarrow> Inl e | Inr s' \<Rightarrow> foldE f s' xs)"

definition bindE :: "error + 'a \<Rightarrow> ('a \<Rightarrow> error + 'b) \<Rightarrow> error + 'b" where
  "bindE r f = (case r of Inl e \<Rightarrow> Inl e | Inr x \<Rightarrow> f x)"

text \<open>The pairs \<open>(stops[i], stops[i + 1])\<close>.\<close>

fun consecutive :: "'a list \<Rightarrow> ('a \<times> 'a) list" where
  "consecutive (x # y # zs) = (x, y) # consecutive (y # zs)"
| "consecutive _ = []"

definition edgeKeyOf :: "cell \<Rightarrow> cell \<Rightarrow> string \<Rightarrow> string" where
  "edgeKeyOf fromParentId toParentId route =
     template fromParentId @ ''|'' @ template toParentId @ ''|'' @ route"

text \<open>Lines 230-257: one consecutive pair of a trip.\<close>

definition addPair ::
  "(cell \<times> cell) list \<Rightarrow> string \<Rightarrow> (string \<times> jsnum list) list \<Rightarrow> stopTime \<times> stopTime
   \<Rightarrow> error + (string \<times> jsnum list) list" where
  "addPair stopToParent route edgeTravelTimes pair =
     (let fromStop = fst pair; toStop = snd pair;
          fromParentId = parentOf stopToParent (stopId fromStop);
          toParentId = parentOf stopToParent (stopId toStop)
      in if fromParentId = toParentId then Inr edgeTravelTimes
         else bindE (adjustedTravelTime (departureTime fromStop) (arrivalTime toStop))
           (\<lambda>adjusted.
              if js_lt adjusted (Num 0) \<or> js_gt adjusted (Num 3600) then Inr edgeTravelTimes
              else (let edgeKey = edgeKeyOf fromParentId toParentId route
                    in Inr (AList.update edgeKey
                              (entries_of edgeTravelTimes edgeKey @ [adjusted])
                              edgeTravelTimes))))"

text \<open>Lines 222-258: one trip, sorted by sequence; a trip without a route is skipped.\<close>

definition processTrip ::
  "(cell \<times> cell) list \<Rightarrow> (cell \<times> cell) list \<Rightarrow> (string \<times> jsnum list) list
   \<Rightarrow> cell \<times> stopTime list \<Rightarrow> error + (string \<times> jsnum list) list" where
  "processTrip stopToParent tripToRoute edgeTravelTimes trip =
     (let sorted = sort_cmp (\<lambda>a b. js_sub (sequence a) (sequence b)) (snd trip)
      in case map_get tripToRoute (fst trip) of
           None \<Rightarrow> Inr edgeTravelTimes
         | Some route \<Rightarrow>
             if route = [] then Inr edgeTravelTimes
             else foldE (addPair stopToParent route) edgeTravelTimes (consecutive sorted))"

text \<open>\<open>rows[0]\<close>; \<open>parseCSV\<close> returns at least one row.\<close>

definition headerOf :: "string list list \<Rightarrow> error + string list" where
  "headerOf rows = (case rows of [] \<Rightarrow> Inl TypeError | h # _ \<Rightarrow> Inr h)"

definition stopMaps ::
  "string list \<Rightarrow> string list list
   \<Rightarrow> (cell \<times> cell) list \<times> (cell \<times> (cell, coord) station) list" where
  "stopMaps stopsHeader stops = foldl (scanStop stopsHeader) ([], []) (tl stops)"

definition buildStations ::
  "string list \<Rightarrow> string list \<Rightarrow> string list \<Rightarrow> string list \<Rightarrow> string list list
   \<Rightarrow> string list list \<Rightarrow> string list list \<Rightarrow> string list list \<Rightarrow> (cell, coord) station list" where
  "buildStations stopsHeader stopTimesHeader tripsHeader routesHeader stops stopTimes trips routes =
     (let maps = stopMaps stopsHeader stops;
          tripToRoute = foldl (scanPair tripsHeader ''trip_id'' ''route_id'') [] (tl trips);
          routeIdToShortName =
            foldl (scanPair routesHeader ''route_id'' ''route_short_name'') [] (tl routes);
          stopToRoutes =
            foldl (scanRoutes stopTimesHeader (fst maps) tripToRoute routeIdToShortName) []
              (tl stopTimes)
      in map (withRoutes stopToRoutes) (snd maps))"

definition collectTravelTimes ::
  "string list \<Rightarrow> string list \<Rightarrow> string list \<Rightarrow> string list list \<Rightarrow> string list list
   \<Rightarrow> string list list \<Rightarrow> error + (string \<times> jsnum list) list" where
  "collectTravelTimes stopsHeader stopTimesHeader tripsHeader stops stopTimes trips =
     (let maps = stopMaps stopsHeader stops;
          tripToRoute = foldl (scanPair tripsHeader ''trip_id'' ''route_id'') [] (tl trips);
          tripStopTimes = foldl (scanStopTime stopTimesHeader) [] (tl stopTimes)
      in foldE (processTrip (fst maps) tripToRoute) [] tripStopTimes)"

definition preprocessGTFS ::
  "(string \<rightharpoonup> string) \<Rightarrow> error + (cell, coord, jsnum) network" where
  "preprocessGTFS fs =
     bindE (parseCSV fs ''stops.txt'') (\<lambda>stops.
     bindE (parseCSV fs ''stop_times.txt'') (\<lambda>stopTimes.
     bindE (parseCSV fs ''trips.txt'') (\<lambda>trips.
     bindE (parseCSV fs ''routes.txt'') (\<lambda>routes.
     bindE (headerOf stops) (\<lambda>stopsHeader.
     bindE (headerOf stopTimes) (\<lambda>stopTimesHeader.
     bindE (headerOf trips) (\<lambda>tripsHeader.
     bindE (headerOf routes) (\<lambda>routesHeader.
     bindE (collectTravelTimes stopsHeader stopTimesHeader tripsHeader stops stopTimes trips)
       (\<lambda>edgeTravelTimes.
          Inr \<lparr>stations = buildStations stopsHeader stopTimesHeader tripsHeader routesHeader
                            stops stopTimes trips routes,
               edges = aggregateEdges edgeTravelTimes\<rparr>)))))))))"

text \<open>
  The median in the specification's words: the middle value of the sorted times, the
  mean of the two central values when their number is even.
\<close>

definition statistical_median :: "real list \<Rightarrow> real" where
  "statistical_median xs =
     (let s = sort xs; n = length s
      in if even n then (s ! (n div 2 - 1) + s ! (n div 2)) / 2 else s ! (n div 2))"

text \<open>
  What the guard of lines 249-250 lets through: a number from 0 to 3600, or \<open>NaN\<close>, on
  which both comparisons are false.
\<close>

definition plausible :: "jsnum \<Rightarrow> bool" where
  "plausible v = (case v of NaN \<Rightarrow> True | Num x \<Rightarrow> 0 \<le> x \<and> x \<le> 3600)"

definition plausible_times :: "(string \<times> jsnum list) list \<Rightarrow> bool" where
  "plausible_times m = (\<forall>k ts. map_of m k = Some ts \<longrightarrow> (\<forall>v \<in> set ts. plausible v))"

text \<open>
  The third pass seen as a list of observations. Each consecutive pair of a trip that
  passes the tests of lines 239 and 250 is one observation: the key of the pair and
  its corrected travel time. \<open>pairObservation\<close>, \<open>tripObservations\<close> and \<open>observations\<close>
  follow the loops of lines 222-258 and list the observations in the order in which
  the script makes them, and \<open>recordTime\<close> is the push of lines 253-256.
\<close>

definition recordTime ::
  "(string \<times> jsnum list) list \<Rightarrow> string \<times> jsnum \<Rightarrow> (string \<times> jsnum list) list" where
  "recordTime m obs = AList.update (fst obs) (entries_of m (fst obs) @ [snd obs]) m"

fun collectE :: "('a \<Rightarrow> error + 'b list) \<Rightarrow> 'a list \<Rightarrow> error + 'b list" where
  "collectE f [] = Inr []"
| "collectE f (x # xs) =
     bindE (f x) (\<lambda>ys. bindE (collectE f xs) (\<lambda>zs. Inr (ys @ zs)))"

definition pairObservation ::
  "(cell \<times> cell) list \<Rightarrow> string \<Rightarrow> stopTime \<times> stopTime \<Rightarrow> error + (string \<times> jsnum) list" where
  "pairObservation stopToParent route pair =
     (let fromParentId = parentOf stopToParent (stopId (fst pair));
          toParentId = parentOf stopToParent (stopId (snd pair))
      in if fromParentId = toParentId then Inr []
         else bindE (adjustedTravelTime (departureTime (fst pair)) (arrivalTime (snd pair)))
           (\<lambda>adjusted.
              if js_lt adjusted (Num 0) \<or> js_gt adjusted (Num 3600) then Inr []
              else Inr [(edgeKeyOf fromParentId toParentId route, adjusted)]))"

definition tripObservations ::
  "(cell \<times> cell) list \<Rightarrow> (cell \<times> cell) list \<Rightarrow> cell \<times> stopTime list
   \<Rightarrow> error + (string \<times> jsnum) list" where
  "tripObservations stopToParent tripToRoute trip =
     (case map_get tripToRoute (fst trip) of
        None \<Rightarrow> Inr []
      | Some route \<Rightarrow>
          if route = [] then Inr []
          else collectE (pairObservation stopToParent route)
                 (consecutive (sort_cmp (\<lambda>a b. js_sub (sequence a) (sequence b)) (snd trip))))"

definition observations ::
  "string list \<Rightarrow> string list \<Rightarrow> string list \<Rightarrow> string list list \<Rightarrow> string list list
   \<Rightarrow> string list list \<Rightarrow> error + (string \<times> jsnum) list" where
  "observations stopsHeader stopTimesHeader tripsHeader stops stopTimes trips =
     collectE
       (tripObservations (fst (stopMaps stopsHeader stops))
          (foldl (scanPair tripsHeader ''trip_id'' ''route_id'') [] (tl trips)))
       (foldl (scanStopTime stopTimesHeader) [] (tl stopTimes))"

definition feedObservations :: "(string \<rightharpoonup> string) \<Rightarrow> error + (string \<times> jsnum) list" where
  "feedObservations fs =
     bindE (parseCSV fs ''stops.txt'') (\<lambda>stops.
     bindE (parseCSV fs ''stop_times.txt'') (\<lambda>stopTimes.
     bindE (parseCSV fs ''trips.txt'') (\<lambda>trips.
     bindE (headerOf stops) (\<lambda>stopsHeader.
     bindE (headerOf stopTimes) (\<lambda>stopTimesHeader.
     bindE (headerOf trips) (\<lambda>tripsHeader.
       observations stopsHeader stopTimesHeader tripsHeader stops stopTimes trips))))))"

text \<open>The times observed for one key, in the order of the observations.\<close>

definition timesOf :: "(string \<times> jsnum) list \<Rightarrow> string \<Rightarrow> jsnum list" where
  "timesOf obs k = map snd (filter (\<lambda>v. fst v = k) obs)"

text \<open>The four files read at lines 67-70, in the order they are read.\<close>

definition requiredFiles :: "string list" where
  "requiredFiles = [''stops.txt'', ''stop_times.txt'', ''trips.txt'', ''routes.txt'']"

section \<open>routing.ts\<close>

text \<open>
  The routing reads a network whose ids are strings and whose travel times are whole
  seconds. A \<open>Map\<close> is the list of its entries in insertion order: \<open>map_of\<close> is \<open>get\<close>,
  and \<open>AList.update\<close> is \<open>set\<close>, which overwrites an entry in place and puts a new
  key last.
\<close>

type_synonym graph = "(string \<times> (string, int) edge list) list"

definition addEdge :: "graph \<Rightarrow> (string, int) edge \<Rightarrow> graph" where
  "addEdge g e =
     (case map_of g (fromId e) of
        None \<Rightarrow> g
      | Some es \<Rightarrow> AList.update (fromId e) (es @ [e]) g)"

definition buildGraph :: "(string, 'c, int) network \<Rightarrow> graph" where
  "buildGraph net =
     foldl addEdge (foldl (\<lambda>g s. AList.update (station_id s) [] g) [] (stations net))
       (edges net)"

text \<open>Lines 53-58: the pair of \<open>dist\<close> and \<open>queue\<close> after one start station.\<close>

definition seedStart ::
  "(string \<times> int) list \<times> (int \<times> string) list \<Rightarrow> startStation
   \<Rightarrow> (string \<times> int) list \<times> (int \<times> string) list" where
  "seedStart dq start =
     (if 0 \<le> remainingTimeSec start
      then (AList.update (stationId start) 0 (fst dq), snd dq @ [(0, stationId start)])
      else dq)"

text \<open>
  Lines 78-91: one outgoing edge. \<open>queue.sort\<close> by the time is stable, as \<open>sort_key\<close> is.
\<close>

definition relaxEdge ::
  "int \<Rightarrow> int \<Rightarrow> (string \<times> int) list \<times> (int \<times> string) list \<Rightarrow> (string, int) edge
   \<Rightarrow> (string \<times> int) list \<times> (int \<times> string) list" where
  "relaxEdge maxTimeSec currentTime dq e =
     (let newTime = currentTime + travelTimeSec e
      in if newTime \<le> maxTimeSec
         then (case map_of (fst dq) (toId e) of
                 None \<Rightarrow>
                   (AList.update (toId e) newTime (fst dq),
                    sort_key fst (snd dq @ [(newTime, toId e)]))
               | Some existingTime \<Rightarrow>
                   if newTime < existingTime
                   then (AList.update (toId e) newTime (fst dq),
                         sort_key fst (snd dq @ [(newTime, toId e)]))
                   else dq)
         else dq)"

text \<open>Lines 74-94: the neighbours of a station popped within the limit.\<close>

definition expand ::
  "int \<Rightarrow> graph \<Rightarrow> int \<Rightarrow> string \<Rightarrow> (string \<times> int) list \<times> (int \<times> string) list
   \<Rightarrow> (string \<times> int) list \<times> (int \<times> string) list" where
  "expand maxTimeSec g currentTime currentId dq =
     (if currentTime \<le> maxTimeSec
      then (case map_of g currentId of
              None \<Rightarrow> dq
            | Some es \<Rightarrow> foldl (relaxEdge maxTimeSec currentTime) dq es)
      else dq)"

text \<open>Lines 65-94: the body of the loop, on the entry shifted off the queue.\<close>

definition visit ::
  "int \<Rightarrow> graph \<Rightarrow> int \<times> string \<Rightarrow> (string \<times> int) list \<times> (int \<times> string) list
   \<Rightarrow> (string \<times> int) list \<times> (int \<times> string) list" where
  "visit maxTimeSec g entry dq =
     (case map_of (fst dq) (snd entry) of
        None \<Rightarrow> expand maxTimeSec g (fst entry) (snd entry) dq
      | Some bestTime \<Rightarrow>
          if fst entry > bestTime then dq
          else expand maxTimeSec g (fst entry) (snd entry) dq)"

text \<open>
  Lines 63-95: \<open>while (queue.length > 0)\<close>. The loop need not end on a graph with a
  cycle of negative time; \<open>None\<close> is the loop that does not return.
\<close>

partial_function (option) drain ::
  "int \<Rightarrow> graph \<Rightarrow> (string \<times> int) list \<times> (int \<times> string) list \<Rightarrow> (string \<times> int) list option" where
  "drain maxTimeSec g dq =
     (case snd dq of
        [] \<Rightarrow> Some (fst dq)
      | entry # rest \<Rightarrow> drain maxTimeSec g (visit maxTimeSec g entry (fst dq, rest)))"

declare drain.simps [code]

text \<open>Lines 98-103: the entries of \<open>dist\<close> within the limit, copied into \<open>result\<close>.\<close>

definition withinLimit :: "int \<Rightarrow> (string \<times> int) list \<Rightarrow> (string \<times> int) list" where
  "withinLimit maxTimeSec d =
     foldl (\<lambda>result entry.
              if snd entry \<le> maxTimeSec then AList.update (fst entry) (snd entry) result
              else result) [] d"

definition findReachableStations ::
  "startStation list \<Rightarrow> int \<Rightarrow> graph \<Rightarrow> (string \<times> int) list option" where
  "findReachableStations startStations maxTimeSec g =
     (case foldl seedStart ([], []) startStations of
        (d0, q0) \<Rightarrow>
          map_option (withinLimit maxTimeSec) (drain maxTimeSec g (d0, sort_key fst q0)))"

section \<open>distance.ts and isochrone.ts\<close>

text \<open>
  The calls into the turf library are parameters: the distance in miles between two
  points, the buffer polygon around a point, and the union of polygons, which may be
  \<open>null\<close>. Distances are exact reals. A \<open>GeocodeResult\<close> has the fields of the object
  built in the address search component.
\<close>

record ('c, 'p) turf =
  turf_distance :: "'c \<times> 'c \<Rightarrow> 'c \<times> 'c \<Rightarrow> real"
  turf_buffer :: "'c \<times> 'c \<Rightarrow> real \<Rightarrow> 'p"
  turf_union :: "'p list \<Rightarrow> 'p option"

record 'c geocodeResult =
  longitude :: 'c
  latitude :: 'c
  placeName :: string

record 'c nearbyStation =
  station :: "(string, 'c) station"
  distanceMiles :: real
  walkingTimeSec :: int

record 'p isochroneResult =
  polygon :: 'p
  reachableStations :: "reachableStation list"
  totalStations :: nat

definition WALKING_SPEED_MPH :: real where
  "WALKING_SPEED_MPH = 3"

definition DEFAULT_MAX_WALK_DISTANCE_MILES :: real where
  "DEFAULT_MAX_WALK_DISTANCE_MILES = 0.5"

definition DEFAULT_MAX_TRAVEL_TIME_SEC :: int where
  "DEFAULT_MAX_TRAVEL_TIME_SEC = 30 * 60"

definition calculateDistance :: "('c, 'p) turf \<Rightarrow> 'c \<Rightarrow> 'c \<Rightarrow> 'c \<Rightarrow> 'c \<Rightarrow> real" where
  "calculateDistance turf lat1 lon1 lat2 lon2 = turf_distance turf (lon1, lat1) (lon2, lat2)"

definition calculateWalkingTime :: "real \<Rightarrow> real \<Rightarrow> int" where
  "calculateWalkingTime miles walkSpeedMph =
     (let timeHours = miles / walkSpeedMph in \<lfloor>timeHours * 3600 + 1 / 2\<rfloor>)"

definition findNearestStations ::
  "('c, 'p) turf \<Rightarrow> 'c \<Rightarrow> 'c \<Rightarrow> (string, 'c) station list \<Rightarrow> real \<Rightarrow> 'c nearbyStation list" where
  "findNearestStations turf officeLat officeLon sts maxWalkDistanceMiles =
     sort_key distanceMiles
       (concat (map (\<lambda>s.
          (let distance = calculateDistance turf officeLat officeLon (lat s) (lon s)
           in if distance \<le> maxWalkDistanceMiles
              then [\<lparr>station = s, distanceMiles = distance,
                     walkingTimeSec = calculateWalkingTime distance WALKING_SPEED_MPH\<rparr>]
              else [])) sts))"

definition generateStationBuffer :: "('c, 'p) turf \<Rightarrow> (string, 'c) station \<Rightarrow> real \<Rightarrow> 'p" where
  "generateStationBuffer turf s miles = turf_buffer turf (lon s, lat s) miles"

definition unionBuffers :: "('c, 'p) turf \<Rightarrow> 'p list \<Rightarrow> 'p option" where
  "unionBuffers turf buffers =
     (case buffers of
        [] \<Rightarrow> None
      | [b] \<Rightarrow> Some b
      | _ \<Rightarrow> turf_union turf buffers)"

text \<open>Lines 121-128: one entry of a search result merged into \<open>reachableStationsMap\<close>.\<close>

definition mergeTime :: "int \<Rightarrow> (string \<times> int) list \<Rightarrow> string \<times> int \<Rightarrow> (string \<times> int) list" where
  "mergeTime walkingTime m entry =
     (let totalTime = walkingTime + snd entry
      in case map_of m (fst entry) of
           None \<Rightarrow> AList.update (fst entry) totalTime m
         | Some existingTime \<Rightarrow>
             if totalTime < existingTime then AList.update (fst entry) totalTime m else m)"

text \<open>
  Lines 107-130: one search for each nearby station whose walk fits the budget, merged
  into the map; \<open>None\<close> when a search does not return.
\<close>

fun mergeReachable ::
  "int \<Rightarrow> graph \<Rightarrow> 'c nearbyStation list \<Rightarrow> (string \<times> int) list \<Rightarrow> (string \<times> int) list option" where
  "mergeReachable maxTravelTimeSec g [] m = Some m"
| "mergeReachable maxTravelTimeSec g (nearby # rest) m =
     (if walkingTimeSec nearby \<le> maxTravelTimeSec
      then (case findReachableStations
                   [\<lparr>stationId = station_id (station nearby),
                     remainingTimeSec = maxTravelTimeSec - walkingTimeSec nearby\<rparr>]
                   (maxTravelTimeSec - walkingTimeSec nearby) g of
              None \<Rightarrow> None
            | Some reachableFromStart \<Rightarrow>
                mergeReachable maxTravelTimeSec g rest
                  (foldl (mergeTime (walkingTimeSec nearby)) m reachableFromStart))
      else mergeReachable maxTravelTimeSec g rest m)"

text \<open>Lines 151-158: the buffers of the reachable stations found in the network.\<close>

definition stationBuffers ::
  "('c, 'p) turf \<Rightarrow> (string, 'c) station list \<Rightarrow> real \<Rightarrow> reachableStation list \<Rightarrow> 'p list" where
  "stationBuffers turf sts walkDistanceMiles reachable =
     (let stationMap = foldl (\<lambda>m s. AList.update (station_id s) s m) [] sts
      in concat (map (\<lambda>r.
           (case map_of stationMap (reachableStation.stationId r) of
              None \<Rightarrow> []
            | Some s \<Rightarrow> [generateStationBuffer turf s walkDistanceMiles])) reachable))"

text \<open>
  \<open>createIsochrone\<close>. The outer \<open>None\<close> is a search that does not return; \<open>Some None\<close> is
  the returned \<open>null\<close>.
\<close>

definition createIsochrone ::
  "('c, 'p) turf \<Rightarrow> 'c geocodeResult \<Rightarrow> (string, 'c, int) network \<Rightarrow> int \<Rightarrow> real \<Rightarrow> real
   \<Rightarrow> 'p isochroneResult option option" where
  "createIsochrone turf officeLocation net maxTravelTimeSec walkDistanceMiles maxWalkDistanceMiles =
     (let nearbyStations =
            findNearestStations turf (latitude officeLocation) (longitude officeLocation)
              (stations net) maxWalkDistanceMiles
      in if nearbyStations = [] then Some None
         else
           (let g = buildGraph net;
                startStations =
                  map (\<lambda>n. \<lparr>stationId = station_id (station n),
                             remainingTimeSec = maxTravelTimeSec - walkingTimeSec n\<rparr>)
                    nearbyStations;
                validStartStations = filter (\<lambda>s. 0 < remainingTimeSec s) startStations
            in if validStartStations = [] then Some None
               else
                 (case mergeReachable maxTravelTimeSec g nearbyStations [] of
                    None \<Rightarrow> None
                  | Some reachableStationsMap \<Rightarrow>
                      (let reachable =
                             map (\<lambda>entry. \<lparr>reachableStation.stationId = fst entry,
                                            reachableStation.travelTimeSec = snd entry\<rparr>)
                               reachableStationsMap
                       in if reachable = [] then Some None
                          else
                            (case unionBuffers turf
                                    (stationBuffers turf (stations net) walkDistanceMiles
                                       reachable) of
                               None \<Rightarrow> Some None
                             | Some unionedPolygon \<Rightarrow>
                                 Some (Some \<lparr>polygon = unionedPolygon,
                                             reachableStations = reachable,
                                             totalStations = length reachable\<rparr>))))))"

section \<open>Notions for the proofs about the search\<close>

text \<open>
  A station and a time are reached inside the limit when the station is a start at
  time 0, or follows by one edge from a station reached no later than the limit, the
  new time being no later than the limit either.
\<close>

inductive reaches :: "int \<Rightarrow> graph \<Rightarrow> string set \<Rightarrow> string \<Rightarrow> int \<Rightarrow> bool"
  for maxTimeSec :: int and g :: graph and S :: "string set" where
  start: "s \<in> S \<Longrightarrow> reaches maxTimeSec g S s 0"
| step: "reaches maxTimeSec g S u t \<Longrightarrow> t \<le> maxTimeSec \<Longrightarrow> map_of g u = Some es \<Longrightarrow> e \<in> set es
         \<Longrightarrow> t + travelTimeSec e \<le> maxTimeSec
         \<Longrightarrow> reaches maxTimeSec g S (toId e) (t + travelTimeSec e)"

text \<open>The start stations the search seeds: those with a non-negative remaining time.\<close>

definition startSet :: "startStation list \<Rightarrow> string set" where
  "startSet startStations = stationId ` {s \<in> set startStations. 0 \<le> remainingTimeSec s}"

text \<open>
  An entry of \<open>dist\<close> is closed when every edge leaving it that stays inside the limit
  has been relaxed.
\<close>

definition closed :: "int \<Rightarrow> graph \<Rightarrow> (string \<times> int) list \<Rightarrow> string \<Rightarrow> int \<Rightarrow> bool" where
  "closed maxTimeSec g d k t \<longleftrightarrow>
     (t \<le> maxTimeSec \<longrightarrow>
       (\<forall>es e. map_of g k = Some es \<longrightarrow> e \<in> set es \<longrightarrow> t + travelTimeSec e \<le> maxTimeSec \<longrightarrow>
          (\<exists>t'. map_of d (toId e) = Some t' \<and> t' \<le> t + travelTimeSec e)))"

text \<open>
  The invariant of the loop: the keys of \<open>dist\<close> are pairwise different; the entries
  of \<open>dist\<close> and of the queue are reached inside the limit; every start has an entry
  at 0 or below; an entry of \<open>dist\<close> is waiting in the queue or closed.
\<close>

definition search_inv ::
  "int \<Rightarrow> graph \<Rightarrow> string set \<Rightarrow> (string \<times> int) list \<times> (int \<times> string) list \<Rightarrow> bool" where
  "search_inv maxTimeSec g S dq \<longleftrightarrow>
     distinct (map fst (fst dq))
     \<and> (\<forall>k t. map_of (fst dq) k = Some t \<longrightarrow> reaches maxTimeSec g S k t)
     \<and> (\<forall>t k. (t, k) \<in> set (snd dq) \<longrightarrow> reaches maxTimeSec g S k t)
     \<and> (\<forall>s \<in> S. \<exists>t \<le> 0. map_of (fst dq) s = Some t)
     \<and> (\<forall>k t. map_of (fst dq) k = Some t \<longrightarrow>
           (t, k) \<in> set (snd dq) \<or> closed maxTimeSec g (fst dq) k t)"

text \<open>
  What relaxing edges \<open>es\<close> from the time \<open>cur\<close> does to \<open>dist\<close> and the queue: times
  only go down, and a new time is queued and comes from one of the edges.
\<close>

definition step_ok ::
  "int \<Rightarrow> int \<Rightarrow> (string, int) edge list \<Rightarrow> (string \<times> int) list \<times> (int \<times> string) list
   \<Rightarrow> (string \<times> int) list \<times> (int \<times> string) list \<Rightarrow> bool" where
  "step_ok maxT cur es dq dq' \<longleftrightarrow>
     (\<forall>k t. map_of (fst dq) k = Some t \<longrightarrow> (\<exists>t' \<le> t. map_of (fst dq') k = Some t'))
     \<and> (\<forall>k t. map_of (fst dq') k = Some t \<longrightarrow>
           map_of (fst dq) k = Some t
           \<or> ((t, k) \<in> set (snd dq') \<and> t \<le> maxT
               \<and> (\<exists>e \<in> set es. k = toId e \<and> t = cur + travelTimeSec e)))
     \<and> set (snd dq) \<subseteq> set (snd dq')
     \<and> (\<forall>t k. (t, k) \<in> set (snd dq') \<longrightarrow>
           (t, k) \<in> set (snd dq)
           \<or> (t \<le> maxT \<and> (\<exists>e \<in> set es. k = toId e \<and> t = cur + travelTimeSec e)))"

text \<open>Every travel time of the graph is non-negative, as the data model has it.\<close>

definition nonneg_graph :: "graph \<Rightarrow> bool" where
  "nonneg_graph g = list_all (\<lambda>entry. list_all (\<lambda>e. 0 \<le> travelTimeSec e) (snd entry)) g"

text \<open>
  The measure that bounds the loop on such a graph: twice the sum, over the targets of
  the edges, of the time still to lose, plus the length of the queue.
\<close>

definition targets :: "graph \<Rightarrow> string set" where
  "targets g = toId ` (\<Union>entry \<in> set g. set (snd entry))"

definition cost :: "int \<Rightarrow> int option \<Rightarrow> nat" where
  "cost maxT v = (case v of None \<Rightarrow> nat maxT + 1 | Some t \<Rightarrow> nat t)"

definition pot :: "graph \<Rightarrow> int \<Rightarrow> (string \<times> int) list \<Rightarrow> nat" where
  "pot g maxT d = (\<Sum>k \<in> targets g. cost maxT (map_of d k))"

definition weight :: "graph \<Rightarrow> int \<Rightarrow> (string \<times> int) list \<times> (int \<times> string) list \<Rightarrow> nat" where
  "weight g maxT dq = 2 * pot g maxT (fst dq) + length (snd dq)"

text \<open>
  In the specification's words: for each station within walking range whose walking
  time is within the budget, the walking time to it plus the transit time from it to
  the destination, as its own search with the remaining budget finds it.
\<close>

definition startTotals :: "int \<Rightarrow> graph \<Rightarrow> 'c nearbyStation list \<Rightarrow> string \<Rightarrow> int list" where
  "startTotals maxTravelTimeSec g nearbyStations destination =
     concat (map (\<lambda>n.
       if walkingTimeSec n \<le> maxTravelTimeSec
       then (case findReachableStations
                    [\<lparr>stationId = station_id (station n),
                      remainingTimeSec = maxTravelTimeSec - walkingTimeSec n\<rparr>]
                    (maxTravelTimeSec - walkingTimeSec n) g of
               None \<Rightarrow> []
             | Some r \<Rightarrow>
                 (case map_of r destination of
                    None \<Rightarrow> []
                  | Some transit \<Rightarrow> [walkingTimeSec n + transit]))
       else []) nearbyStations)"

definition is_least :: "int option \<Rightarrow> int list \<Rightarrow> bool" where
  "is_least v xs =
     (case v of None \<Rightarrow> xs = [] | Some t \<Rightarrow> t \<in> set xs \<and> (\<forall>x \<in> set xs. t \<le> x))"

section \<open>Some networks\<close>

definition plain_station :: "string \<Rightarrow> real \<Rightarrow> real \<Rightarrow> (string, real) station" where
  "plain_station i la lo =
     \<lparr>station_id = i, name = i, lat = la, lon = lo, accessible = False, routesServed = []\<rparr>"

text \<open>The line A to B in 60 seconds, B to C in 120 seconds.\<close>

definition line_network :: "(string, real, int) network" where
  "line_network =
     \<lparr>stations = [plain_station ''A'' 0 0, plain_station ''B'' 0 1, plain_station ''C'' 0 2],
      edges =
        [\<lparr>fromId = ''A'', toId = ''B'', travelTimeSec = 60, routeId = ''1''\<rparr>,
         \<lparr>fromId = ''B'', toId = ''C'', travelTimeSec = 120, routeId = ''1''\<rparr>]\<rparr>"

text \<open>
  A stand-in for turf on a plane: the distance of two points is the sum of the
  differences of their coordinates, a buffer is its centre and radius, and a union
  collects its buffers. The second stand-in has a union that yields \<open>null\<close>.
\<close>

definition plane_turf :: "(real, ((real \<times> real) \<times> real) list) turf" where
  "plane_turf =
     \<lparr>turf_distance = (\<lambda>p q. \<bar>fst p - fst q\<bar> + \<bar>snd p - snd q\<bar>),
      turf_buffer = (\<lambda>p r. [(p, r)]),
      turf_union = (\<lambda>ps. Some (concat ps))\<rparr>"

definition plane_turf_null :: "(real, ((real \<times> real) \<times> real) list) turf" where
  "plane_turf_null = plane_turf\<lparr>turf_union := (\<lambda>ps. None)\<rparr>"

definition office :: "real \<Rightarrow> real geocodeResult" where
  "office lo = \<lparr>longitude = lo, latitude = 0, placeName = ''office''\<rparr>"

definition isochrone_900 :: "((real \<times> real) \<times> real) list isochroneResult" where
  "isochrone_900 =
     \<lparr>polygon = [((0, 0), 1 / 2), ((1, 0), 1 / 2), ((2, 0), 1 / 2)],
      reachableStations =
        [\<lparr>reachableStation.stationId = ''A'', reachableStation.travelTimeSec = 480\<rparr>,
         \<lparr>reachableStation.stationId = ''B'', reachableStation.travelTimeSec = 540\<rparr>,
         \<lparr>reachableStation.stationId = ''C'', reachableStation.travelTimeSec = 660\<rparr>],
      totalStations = 3\<rparr>"

section \<open>Some feeds\<close>

definition lines :: "string list \<Rightarrow> string" where
  "lines ls = concat (map (\<lambda>l. l @ [CHR 0x0A]) ls)"

text \<open>
  Two parent stations and a platform of the first; one trip that leaves the platform
  at 23:59:50 and arrives at the second station at 00:00:20.
\<close>

definition feed_overnight :: "string \<rightharpoonup> string" where
  "feed_overnight =
     [''stops.txt'' \<mapsto> lines
        [''stop_id,stop_name,stop_lat,stop_lon,location_type,parent_station'',
         ''A,Alpha,40.7,-74.0,1,'', ''B,Beta,40.8,-74.0,1,'', ''A1,Alpha,40.7,-74.0,0,A''],
      ''stop_times.txt'' \<mapsto> lines
        [''trip_id,stop_id,arrival_time,departure_time,stop_sequence'',
         ''T,A1,23:59:40,23:59:50,1'', ''T,B,00:00:20,00:00:30,2''],
      ''trips.txt'' \<mapsto> lines [''route_id,trip_id'', ''R,T''],
      ''routes.txt'' \<mapsto> lines [''route_id,route_short_name'', ''R,Red'']]"

definition network_overnight :: "(cell, coord, jsnum) network" where
  "network_overnight =
     \<lparr>stations =
        [\<lparr>station_id = Some ''A'', name = Some ''Alpha'', lat = ParseFloat (Some ''40.7''),
          lon = ParseFloat (Some ''-74.0''), accessible = False, routesServed = [''Red'']\<rparr>,
         \<lparr>station_id = Some ''B'', name = Some ''Beta'', lat = ParseFloat (Some ''40.8''),
          lon = ParseFloat (Some ''-74.0''), accessible = False, routesServed = [''Red'']\<rparr>],
      edges =
        [\<lparr>fromId = Some ''A'', toId = Some ''B'', travelTimeSec = Num 30,
          routeId = Some ''R''\<rparr>]\<rparr>"

text \<open>The same feed, its stops table without the \<open>location_type\<close> column.\<close>

definition feed_no_location_type :: "string \<rightharpoonup> string" where
  "feed_no_location_type =
     feed_overnight(''stops.txt'' \<mapsto> lines
        [''stop_id,stop_name,stop_lat,stop_lon,parent_station'',
         ''A,Alpha,40.7,-74.0,'', ''B,Beta,40.8,-74.0,'', ''A1,Alpha,40.7,-74.0,A''])"

text \<open>The overnight feed, its stop times without the \<open>arrival_time\<close> column.\<close>

definition feed_no_arrival_time :: "string \<rightharpoonup> string" where
  "feed_no_arrival_time =
     feed_overnight(''stop_times.txt'' \<mapsto> lines
        [''trip_id,stop_id,departure_time,stop_sequence'',
         ''T,A1,23:59:50,1'', ''T,B,00:00:30,2''])"

text \<open>
  Three stations on one trip; the middle stop is not a timepoint and its arrival and
  departure times are empty, as GTFS allows.
\<close>

definition feed_blank_times :: "string \<rightharpoonup> string" where
  "feed_blank_times =
     [''stops.txt'' \<mapsto> lines
        [''stop_id,stop_name,stop_lat,stop_lon,location_type,parent_station'',
         ''A,Alpha,40.7,-74.0,1,'', ''B,Beta,40.8,-74.0,1,'', ''C,Gamma,40.9,-74.0,1,''],
      ''stop_times.txt'' \<mapsto> lines
        [''trip_id,stop_id,arrival_time,departure_time,stop_sequence'',
         ''T,A,08:00:00,08:00:00,1'', ''T,B,,,2'', ''T,C,08:10:00,08:10:00,3''],
      ''trips.txt'' \<mapsto> lines [''route_id,trip_id'', ''R,T''],
      ''routes.txt'' \<mapsto> lines [''route_id,route_short_name'', ''R,Red'']]"

text \<open>
  Four parent stations, two of them with the character \<open>|\<close> in their id, and two
  trips of route R: the first from \<open>A|B\<close> to \<open>C\<close> in 100 seconds, the second from
  \<open>A\<close> to \<open>B|C\<close> in 300 seconds.
\<close>

definition feed_bar_ids :: "string \<rightharpoonup> string" where
  "feed_bar_ids =
     [''stops.txt'' \<mapsto> lines
        [''stop_id,stop_name,stop_lat,stop_lon,location_type,parent_station'',
         ''A|B,Alpha,40.7,-74.0,1,'', ''C,Gamma,40.8,-74.0,1,'',
         ''A,Delta,40.9,-74.0,1,'', ''B|C,Beta,41.0,-74.0,1,''],
      ''stop_times.txt'' \<mapsto> lines
        [''trip_id,stop_id,arrival_time,departure_time,stop_sequence'',
         ''T1,A|B,08:00:00,08:00:00,1'', ''T1,C,08:01:40,08:01:40,2'',
         ''T2,A,09:00:00,09:00:00,1'', ''T2,B|C,09:05:00,09:05:00,2''],
      ''trips.txt'' \<mapsto> lines [''route_id,trip_id'', ''R,T1'', ''R,T2''],
      ''routes.txt'' \<mapsto> lines [''route_id,route_short_name'', ''R,Red'']]"

section \<open>Properties of the preprocessing\<close>

lemma insert_cmp_Num: "insert_cmp js_sub (Num x) (map Num ys) = map Num (insort x ys)"
  by (induction ys) auto

lemma sort_cmp_Num: "sort_cmp js_sub (map Num xs) = map Num (sort xs)"
  by (induction xs) (simp_all add: sort_cmp_def insert_cmp_Num)

lemma num_at_Num: "i < length xs \<Longrightarrow> num_at (map Num xs) (int i) = Num (xs ! i)"
  by (simp add: num_at_def cell_at_def)

lemma median_Num:
  assumes "xs \<noteq> []"
  shows "median (map Num xs) = Num (statistical_median xs)"
proof -
  define s where "s = sort xs"
  define n where "n = length s"
  have n: "0 < n" using assms by (simp add: n_def s_def)
  have mid: "n div 2 < n" using n by simp
  show ?thesis
  proof (cases "even n")
    case True
    then have "2 \<le> n" using n by (auto elim: evenE)
    then have pos: "0 < n div 2" by simp
    have eq: "int (n div 2) - 1 = int (n div 2 - 1)" using pos by simp
    have lt: "n div 2 - 1 < n" using n by simp
    have "num_at (map Num s) (int (n div 2) - 1) = Num (s ! (n div 2 - 1))"
      unfolding eq using lt by (simp add: num_at_Num n_def)
    moreover have "num_at (map Num s) (int (n div 2)) = Num (s ! (n div 2))"
      using mid by (simp add: num_at_Num n_def)
    ultimately show ?thesis
      using True
      by (simp add: median_def statistical_median_def sort_cmp_Num Let_def
          s_def [symmetric] n_def [symmetric] even_iff_mod_2_eq_zero)
  next
    case False
    moreover have "num_at (map Num s) (int (n div 2)) = Num (s ! (n div 2))"
      using mid by (simp add: num_at_Num n_def)
    ultimately show ?thesis
      by (simp add: median_def statistical_median_def sort_cmp_Num Let_def
          s_def [symmetric] n_def [symmetric] even_iff_mod_2_eq_zero)
  qed
qed

lemma split_on_free: "sep \<notin> set a \<Longrightarrow> split_on sep a = [a]"
  by (induction a) auto

lemma split_on_append: "sep \<notin> set a \<Longrightarrow> split_on sep (a @ sep # rest) = a # split_on sep rest"
  by (induction a) auto

lemma edgeOfEntry_key:
  assumes "CHR ''|'' \<notin> set f" "CHR ''|'' \<notin> set t" "CHR ''|'' \<notin> set r"
  shows "edgeOfEntry (edgeKeyOf (Some f) (Some t) r, ts) =
           \<lparr>fromId = Some f, toId = Some t, travelTimeSec = Math_round (median ts),
            routeId = Some r\<rparr>"
proof -
  have "split_on CHR ''|'' (f @ CHR ''|'' # t @ CHR ''|'' # r) = [f, t, r]"
    using assms by (simp add: split_on_append split_on_free)
  then show ?thesis
    by (simp add: edgeOfEntry_def edgeKeyOf_def template_def cell_at_def Let_def)
qed

lemma Math_round_nearest:
  "\<exists>k::int. Math_round (Num x) = Num (of_int k) \<and> \<bar>of_int k - x\<bar> \<le> 1 / 2"
proof -
  have "of_int \<lfloor>x + 1 / 2\<rfloor> \<le> x + 1 / 2"
    by (rule of_int_floor_le)
  moreover have "x + 1 / 2 < of_int \<lfloor>x + 1 / 2\<rfloor> + 1"
    by (rule floor_correct [THEN conjunct2, simplified])
  ultimately have "\<bar>of_int \<lfloor>x + 1 / 2\<rfloor> - x\<bar> \<le> 1 / 2"
    by linarith
  then show ?thesis by auto
qed

text \<open>The keys of \<open>edgeTravelTimes\<close> are pairwise different: it is a map.\<close>

lemma foldE_distinct:
  assumes "\<And>s x s'. distinct (map fst s) \<Longrightarrow> f s x = Inr s' \<Longrightarrow> distinct (map fst s')"
  shows "distinct (map fst s) \<Longrightarrow> foldE f s xs = Inr s' \<Longrightarrow> distinct (map fst s')"
proof (induction xs arbitrary: s)
  case Nil
  then show ?case by simp
next
  case (Cons x xs)
  then show ?case using assms by (auto split: sum.splits)
qed

lemma addPair_distinct:
  "distinct (map fst s) \<Longrightarrow> addPair p r s x = Inr s' \<Longrightarrow> distinct (map fst s')"
  by (auto simp: addPair_def bindE_def Let_def distinct_update split: if_splits sum.splits)

lemma processTrip_distinct:
  "distinct (map fst s) \<Longrightarrow> processTrip p t s x = Inr s' \<Longrightarrow> distinct (map fst s')"
  unfolding processTrip_def Let_def
  by (auto split: option.splits if_splits elim: foldE_distinct [rotated 1] addPair_distinct)

lemma collectTravelTimes_distinct:
  "collectTravelTimes h1 h2 h3 a b c = Inr m \<Longrightarrow> distinct (map fst m)"
  unfolding collectTravelTimes_def Let_def
  by (erule foldE_distinct [rotated 2]) (auto elim: processTrip_distinct)

lemma preprocessGTFS_edges:
  "preprocessGTFS fs = Inr n \<Longrightarrow> \<exists>m. distinct (map fst m) \<and> edges n = aggregateEdges m"
  unfolding preprocessGTFS_def bindE_def
  by (auto split: sum.splits dest: collectTravelTimes_distinct)

lemma median_100_100_300: "median [Num 100, Num 100, Num 300] = Num 100"
  by (simp add: median_def sort_cmp_def num_at_def cell_at_def)

lemma median_100_200: "median [Num 100, Num 200] = Num 150"
  by (simp add: median_def sort_cmp_def num_at_def cell_at_def)

lemma timeToSeconds_235950: "timeToSeconds (Some ''23:59:50'') = Inr (Num 86390)"
  by (simp add: timeToSeconds_def Number_js_def trim_def is_space_def is_digit_def
      digits_value_def num_at_def cell_at_def)

lemma timeToSeconds_000020: "timeToSeconds (Some ''00:00:20'') = Inr (Num 20)"
  by (simp add: timeToSeconds_def Number_js_def trim_def is_space_def is_digit_def
      digits_value_def num_at_def cell_at_def)

text \<open>
  The map \<open>edgeTravelTimes\<close> groups the observations by key: its keys are the keys
  observed, and the array of a key holds every time observed for that key, in order.
  The edges of a returned network are one for each entry of this map.
\<close>

lemma bindE_Inr: "bindE (Inr x) f = f x"
  by (simp add: bindE_def)

lemma foldE_collectE:
  "foldE (\<lambda>s x. bindE (f x) (\<lambda>obs. Inr (foldl g s obs))) s xs =
     bindE (collectE f xs) (\<lambda>obs. Inr (foldl g s obs))"
  by (induction xs arbitrary: s) (auto simp: bindE_def split: sum.splits)

lemma addPair_records:
  "addPair p r m pair = bindE (pairObservation p r pair) (\<lambda>obs. Inr (foldl recordTime m obs))"
  by (auto simp: addPair_def pairObservation_def recordTime_def bindE_def Let_def
      split: sum.splits)

lemma processTrip_records:
  "processTrip p t m trip =
     bindE (tripObservations p t trip) (\<lambda>obs. Inr (foldl recordTime m obs))"
proof -
  have "addPair p r = (\<lambda>s x. bindE (pairObservation p r x) (\<lambda>obs. Inr (foldl recordTime s obs)))"
    for r
    by (intro ext) (rule addPair_records)
  then show ?thesis
    by (simp add: processTrip_def tripObservations_def Let_def foldE_collectE bindE_Inr
        split: option.splits)
qed

lemma collectTravelTimes_records:
  "collectTravelTimes h1 h2 h3 a b c =
     bindE (observations h1 h2 h3 a b c) (\<lambda>obs. Inr (foldl recordTime [] obs))"
proof -
  have "processTrip p t = (\<lambda>s x. bindE (tripObservations p t x) (\<lambda>obs. Inr (foldl recordTime s obs)))"
    for p t
    by (intro ext) (rule processTrip_records)
  then show ?thesis
    by (simp add: collectTravelTimes_def observations_def Let_def foldE_collectE)
qed

lemma map_of_recordTime:
  "map_of (recordTime m obs) k =
     (if k = fst obs then Some (entries_of m k @ [snd obs]) else map_of m k)"
  by (simp add: recordTime_def update_conv')

lemma entries_of_recordTime:
  "entries_of (recordTime m obs) k =
     (if k = fst obs then entries_of m k @ [snd obs] else entries_of m k)"
  by (simp add: entries_of_def map_of_recordTime)

lemma entries_of_records:
  "entries_of (foldl recordTime m obs) k = entries_of m k @ timesOf obs k"
  by (induction obs arbitrary: m) (simp_all add: timesOf_def entries_of_recordTime)

lemma keys_recordTime:
  "map_of (recordTime m obs) k = None \<longleftrightarrow> k \<noteq> fst obs \<and> map_of m k = None"
  by (simp add: map_of_recordTime)

lemma keys_records:
  "map_of (foldl recordTime m obs) k = None \<longleftrightarrow> map_of m k = None \<and> timesOf obs k = []"
  by (induction obs arbitrary: m) (auto simp: timesOf_def map_of_recordTime)

lemma map_of_records:
  "map_of (foldl recordTime [] obs) k =
     (if timesOf obs k = [] then None else Some (timesOf obs k))"
proof (cases "timesOf obs k = []")
  case True
  then show ?thesis using keys_records [of "[]" obs k] by simp
next
  case False
  then obtain ts where ts: "map_of (foldl recordTime [] obs) k = Some ts"
    using keys_records [of "[]" obs k] by auto
  then have "entries_of (foldl recordTime [] obs) k = ts"
    by (simp add: entries_of_def)
  then have "ts = timesOf obs k"
    using entries_of_records [of "[]" obs k] by (simp add: entries_of_def)
  then show ?thesis using False ts by simp
qed

lemma distinct_records:
  "distinct (map fst m) \<Longrightarrow> distinct (map fst (foldl recordTime m obs))"
  by (induction obs arbitrary: m) (simp_all add: recordTime_def distinct_update)

lemma collectTravelTimes_grouped:
  assumes "collectTravelTimes h1 h2 h3 a b c = Inr m"
  shows "\<exists>obs. observations h1 h2 h3 a b c = Inr obs
           \<and> distinct (map fst m)
           \<and> (\<forall>k. map_of m k = (if timesOf obs k = [] then None else Some (timesOf obs k)))"
proof -
  obtain obs where obs: "observations h1 h2 h3 a b c = Inr obs"
    and m: "m = foldl recordTime [] obs"
    using assms unfolding collectTravelTimes_records
    by (auto simp: bindE_def split: sum.splits)
  show ?thesis
    using obs distinct_records [of "[]" obs] unfolding m
    by (simp add: map_of_records)
qed

lemma preprocessGTFS_grouped:
  assumes "preprocessGTFS fs = Inr n"
  shows "\<exists>obs m. feedObservations fs = Inr obs
           \<and> edges n = aggregateEdges m
           \<and> distinct (map fst m)
           \<and> (\<forall>k. map_of m k = (if timesOf obs k = [] then None else Some (timesOf obs k)))"
proof -
  obtain a b c h1 h2 h3 m where files: "parseCSV fs ''stops.txt'' = Inr a"
      "parseCSV fs ''stop_times.txt'' = Inr b" "parseCSV fs ''trips.txt'' = Inr c"
    and headers: "headerOf a = Inr h1" "headerOf b = Inr h2" "headerOf c = Inr h3"
    and m: "collectTravelTimes h1 h2 h3 a b c = Inr m"
    and n: "edges n = aggregateEdges m"
    using assms unfolding preprocessGTFS_def bindE_def
    by (auto split: sum.splits)
  obtain obs where obs: "observations h1 h2 h3 a b c = Inr obs"
    and grouped: "distinct (map fst m)"
      "\<forall>k. map_of m k = (if timesOf obs k = [] then None else Some (timesOf obs k))"
    using collectTravelTimes_grouped [OF m] by blast
  have "feedObservations fs = Inr obs"
    by (simp add: feedObservations_def files headers obs bindE_Inr)
  then show ?thesis
    using n grouped by blast
qed

lemma bar_ids_observations:
  "feedObservations feed_bar_ids = Inr [(''A|B|C|R'', Num 100), (''A|B|C|R'', Num 300)]"
  by code_simp

lemma overnight_observations:
  "feedObservations feed_overnight = Inr [(''A|B|R'', Num 30)]"
  by code_simp

text \<open>
  C7 on \<open>feed_bar_ids\<close>. The map \<open>edgeTravelTimes\<close>, commented as a map from
  \<open>(fromId, toId, routeId)\<close> to the travel times, is keyed by the three ids joined with
  \<open>|\<close>, and the ids of an edge are read back with \<open>edgeKey.split('|')\<close>. The triples
  \<open>(A|B, C, R)\<close> and \<open>(A, B|C, R)\<close> have the same key \<open>A|B|C|R\<close>: the 100 seconds of the
  first and the 300 seconds of the second are collected in one array, and the script
  emits one edge for the two triples, with the median 200 of the mixed times, from
  \<open>A\<close> to \<open>B\<close> on a route \<open>C\<close>: two stations no trip joins, and a route no trip has.
  Neither triple has an edge of its own, with its own median 100 or 300.
\<close>

theorem key_collision_edge:
  "preprocessGTFS feed_bar_ids =
     Inr \<lparr>stations =
            [\<lparr>station_id = Some ''A|B'', name = Some ''Alpha'', lat = ParseFloat (Some ''40.7''),
              lon = ParseFloat (Some ''-74.0''), accessible = False, routesServed = [''Red'']\<rparr>,
             \<lparr>station_id = Some ''C'', name = Some ''Gamma'', lat = ParseFloat (Some ''40.8''),
              lon = ParseFloat (Some ''-74.0''), accessible = False, routesServed = [''Red'']\<rparr>,
             \<lparr>station_id = Some ''A'', name = Some ''Delta'', lat = ParseFloat (Some ''40.9''),
              lon = ParseFloat (Some ''-74.0''), accessible = False, routesServed = [''Red'']\<rparr>,
             \<lparr>station_id = Some ''B|C'', name = Some ''Beta'', lat = ParseFloat (Some ''41.0''),
              lon = ParseFloat (Some ''-74.0''), accessible = False, routesServed = [''Red'']\<rparr>],
          edges =
            [\<lparr>fromId = Some ''A'', toId = Some ''B'', travelTimeSec = Num 200,
              routeId = Some ''C''\<rparr>]\<rparr>
   \<and> edgeKeyOf (Some ''A|B'') (Some ''C'') ''R'' = ''A|B|C|R''
   \<and> edgeKeyOf (Some ''A'') (Some ''B|C'') ''R'' = ''A|B|C|R''
   \<and> adjustedTravelTime (Some ''08:00:00'') (Some ''08:01:40'') = Inr (Num 100)
   \<and> adjustedTravelTime (Some ''09:00:00'') (Some ''09:05:00'') = Inr (Num 300)
   \<and> edgeOfEntry (''A|B|C|R'', [Num 100, Num 300]) =
       \<lparr>fromId = Some ''A'', toId = Some ''B'', travelTimeSec = Num 200, routeId = Some ''C''\<rparr>"
  by code_simp

text \<open>
  C8. The correction for a trip that runs past midnight: when the arrival at the next
  stop minus the departure from the previous one is negative, 86400 is added, and
  otherwise the difference is kept. A departure at 23:59:50 and an arrival at 00:00:20
  give 30 seconds.
\<close>

theorem overnight_correction:
  "(timeToSeconds dep = Inr (Num a) \<and> timeToSeconds arr = Inr (Num b) \<and> b - a < 0 \<longrightarrow>
      adjustedTravelTime dep arr = Inr (Num (b - a + 86400)))
   \<and> (timeToSeconds dep = Inr (Num a) \<and> timeToSeconds arr = Inr (Num b) \<and> 0 \<le> b - a \<longrightarrow>
      adjustedTravelTime dep arr = Inr (Num (b - a)))
   \<and> adjustedTravelTime (Some ''23:59:50'') (Some ''00:00:20'') = Inr (Num 30)"
  by (simp add: adjustedTravelTime_def timeToSeconds_235950 timeToSeconds_000020)


theorem overnight_correction_witness:
  "timeToSeconds (Some ''23:59:50'') = Inr (Num 86390)
   \<and> timeToSeconds (Some ''00:00:20'') = Inr (Num 20)
   \<and> (20 :: real) - 86390 < 0
   \<and> adjustedTravelTime (Some ''23:59:50'') (Some ''00:00:20'') = Inr (Num (20 - 86390 + 86400))
   \<and> (0 :: real) \<le> 86390 - 20
   \<and> adjustedTravelTime (Some ''00:00:20'') (Some ''23:59:50'') = Inr (Num (86390 - 20))"
proof -
  have neg: "(20 :: real) - 86390 < 0" and pos: "(0 :: real) \<le> 86390 - 20"
    by simp_all
  have c1: "adjustedTravelTime (Some ''23:59:50'') (Some ''00:00:20'') =
      Inr (Num (20 - 86390 + 86400))"
    using overnight_correction [of "Some ''23:59:50''" 86390 "Some ''00:00:20''" 20,
        THEN conjunct1]
      timeToSeconds_235950 timeToSeconds_000020 neg
    by (elim impE) (intro conjI, assumption+)
  have c2: "adjustedTravelTime (Some ''00:00:20'') (Some ''23:59:50'') = Inr (Num (86390 - 20))"
    using overnight_correction [of "Some ''00:00:20''" 20 "Some ''23:59:50''" 86390,
        THEN conjunct2, THEN conjunct1]
      timeToSeconds_235950 timeToSeconds_000020 pos
    by (elim impE) (intro conjI, assumption+)
  from timeToSeconds_235950 timeToSeconds_000020 neg c1 pos c2 show ?thesis
    by (intro conjI)
qed

subsection \<open>Errors of the ingestion\<close>

lemma split_on_nonempty: "split_on sep s \<noteq> []"
  by (induction s) (auto split: list.splits)

lemma headerOf_parseCSV:
  "parseCSV fs f = Inr rows \<Longrightarrow> \<exists>h. headerOf rows = Inr h"
  by (auto simp: parseCSV_def headerOf_def split_on_nonempty split: option.splits list.splits)

lemma timeToSeconds_error: "timeToSeconds c = Inl e \<Longrightarrow> e = TypeError"
  by (auto simp: timeToSeconds_def Let_def split: option.splits)

lemma adjustedTravelTime_error: "adjustedTravelTime d a = Inl e \<Longrightarrow> e = TypeError"
  by (auto simp: adjustedTravelTime_def Let_def split: sum.splits dest: timeToSeconds_error)

lemma addPair_error: "addPair p r s x = Inl e \<Longrightarrow> e = TypeError"
  by (auto simp: addPair_def bindE_def Let_def split: if_splits sum.splits
      dest: adjustedTravelTime_error)

lemma foldE_error:
  assumes "\<And>s x e. f s x = Inl e \<Longrightarrow> P e"
  shows "foldE f s xs = Inl e \<Longrightarrow> P e"
  by (induction xs arbitrary: s) (auto split: sum.splits dest: assms)

lemma processTrip_error: "processTrip p t s x = Inl e \<Longrightarrow> e = TypeError"
  unfolding processTrip_def Let_def
  by (auto split: option.splits if_splits elim!: foldE_error [rotated] dest: addPair_error)

lemma collectTravelTimes_error:
  "collectTravelTimes h1 h2 h3 a b c = Inl e \<Longrightarrow> e = TypeError"
  unfolding collectTravelTimes_def Let_def
  by (erule foldE_error [rotated]) (auto dest: processTrip_error)

lemma preprocessGTFS_present:
  assumes "\<forall>f \<in> set requiredFiles. fs f \<noteq> None"
  shows "preprocessGTFS fs \<noteq> Inl (ENOENT f)"
proof -
  obtain c1 c2 c3 c4 where c: "fs ''stops.txt'' = Some c1" "fs ''stop_times.txt'' = Some c2"
    "fs ''trips.txt'' = Some c3" "fs ''routes.txt'' = Some c4"
    using assms by (auto simp: requiredFiles_def)
  obtain r1 r2 r3 r4 where r: "parseCSV fs ''stops.txt'' = Inr r1"
    "parseCSV fs ''stop_times.txt'' = Inr r2" "parseCSV fs ''trips.txt'' = Inr r3"
    "parseCSV fs ''routes.txt'' = Inr r4"
    using c by (simp add: parseCSV_def)
  obtain h1 where h1: "headerOf r1 = Inr h1" using r(1) headerOf_parseCSV by blast
  obtain h2 where h2: "headerOf r2 = Inr h2" using r(2) headerOf_parseCSV by blast
  obtain h3 where h3: "headerOf r3 = Inr h3" using r(3) headerOf_parseCSV by blast
  obtain h4 where h4: "headerOf r4 = Inr h4" using r(4) headerOf_parseCSV by blast
  show ?thesis
    using collectTravelTimes_error [of h1 h2 h3 r1 r2 r3]
    by (auto simp: preprocessGTFS_def bindE_def r h1 h2 h3 h4 split: sum.splits)
qed

lemma preprocessGTFS_first_missing:
  assumes i: "i < length requiredFiles"
    and gone: "fs (requiredFiles ! i) = None"
    and before: "\<forall>j < i. fs (requiredFiles ! j) \<noteq> None"
  shows "preprocessGTFS fs = Inl (ENOENT (requiredFiles ! i))"
proof -
  have "i < 4" using i by (simp add: requiredFiles_def)
  then consider "i = 0" | "i = 1" | "i = 2" | "i = 3" by linarith
  then show ?thesis
  proof cases
    case 1
    then have "fs ''stops.txt'' = None"
      using gone by (simp add: requiredFiles_def)
    then show ?thesis
      using 1 by (simp add: requiredFiles_def preprocessGTFS_def bindE_def parseCSV_def)
  next
    case 2
    then have "fs ''stop_times.txt'' = None"
      using gone by (simp add: requiredFiles_def)
    moreover obtain c1 where "fs ''stops.txt'' = Some c1"
      using before [rule_format, of 0] 2 by (auto simp: requiredFiles_def)
    ultimately show ?thesis
      using 2 by (simp add: requiredFiles_def preprocessGTFS_def bindE_def parseCSV_def)
  next
    case 3
    then have "fs ''trips.txt'' = None"
      using gone by (simp add: requiredFiles_def)
    moreover obtain c1 where "fs ''stops.txt'' = Some c1"
      using before [rule_format, of 0] 3 by (auto simp: requiredFiles_def)
    moreover obtain c2 where "fs ''stop_times.txt'' = Some c2"
      using before [rule_format, of 1] 3 by (auto simp: requiredFiles_def)
    ultimately show ?thesis
      using 3 by (simp add: requiredFiles_def preprocessGTFS_def bindE_def parseCSV_def)
  next
    case 4
    then have "fs ''routes.txt'' = None"
      using gone by (simp add: requiredFiles_def)
    moreover obtain c1 where "fs ''stops.txt'' = Some c1"
      using before [rule_format, of 0] 4 by (auto simp: requiredFiles_def)
    moreover obtain c2 where "fs ''stop_times.txt'' = Some c2"
      using before [rule_format, of 1] 4 by (auto simp: requiredFiles_def)
    moreover obtain c3 where "fs ''trips.txt'' = Some c3"
      using before [rule_format, of 2] 4 by (auto simp: requiredFiles_def)
    ultimately show ?thesis
      using 4 by (simp add: requiredFiles_def preprocessGTFS_def bindE_def parseCSV_def)
  qed
qed

lemma indexOf_absent: "col \<notin> set header \<Longrightarrow> indexOf header col = -1"
  by (induction header) (auto simp: Let_def)

lemma cell_absent: "col \<notin> set header \<Longrightarrow> cell_at row (indexOf header col) = None"
  by (simp add: indexOf_absent cell_at_def)

text \<open>
  C4, as the script behaves. The four files are read in the order of \<open>requiredFiles\<close>:
  stops, stop times, trips, routes. When a file is missing and every file read before
  it is there, ingestion fails with the read error of \<open>readFileSync\<close> for that
  file, the first missing one, whatever the later files are. When the four files are
  there, ingestion returns a network, or stops with the TypeError of \<open>timeToSeconds\<close>
  on an undefined time cell. A column whose header is absent is not reported: its index
  is \<open>-1\<close> and every cell read from it is \<open>undefined\<close>.
\<close>

theorem ingestion_errors:
  "(\<forall>i < length requiredFiles.
      fs (requiredFiles ! i) = None \<and> (\<forall>j < i. fs (requiredFiles ! j) \<noteq> None) \<longrightarrow>
      preprocessGTFS fs = Inl (ENOENT (requiredFiles ! i)))
   \<and> ((\<forall>f \<in> set requiredFiles. fs f \<noteq> None) \<longrightarrow>
        preprocessGTFS fs = Inl TypeError \<or> (\<exists>n. preprocessGTFS fs = Inr n))
   \<and> (col \<notin> set header \<longrightarrow>
        indexOf header col = -1 \<and> cell_at row (indexOf header col) = None)"
proof -
  have "preprocessGTFS fs = Inl TypeError \<or> (\<exists>n. preprocessGTFS fs = Inr n)"
    if "\<forall>f \<in> set requiredFiles. fs f \<noteq> None"
  proof (cases "preprocessGTFS fs")
    case (Inl e)
    then show ?thesis
      using preprocessGTFS_present [OF that] by (cases e) auto
  next
    case (Inr n)
    then show ?thesis by simp
  qed
  moreover have "\<forall>i < length requiredFiles.
      fs (requiredFiles ! i) = None \<and> (\<forall>j < i. fs (requiredFiles ! j) \<noteq> None) \<longrightarrow>
      preprocessGTFS fs = Inl (ENOENT (requiredFiles ! i))"
    using preprocessGTFS_first_missing [of _ fs] by blast
  ultimately show ?thesis
    using indexOf_absent [of col header] cell_absent [of col header row]
    by blast
qed

theorem ingestion_errors_witness:
  "(2 :: nat) < length requiredFiles \<and> requiredFiles ! 2 = ''trips.txt''
   \<and> requiredFiles ! 0 = ''stops.txt'' \<and> requiredFiles ! 1 = ''stop_times.txt''
   \<and> (feed_overnight(''trips.txt'' := None, ''routes.txt'' := None)) ''trips.txt'' = None
   \<and> (feed_overnight(''trips.txt'' := None, ''routes.txt'' := None)) ''routes.txt'' = None
   \<and> (feed_overnight(''trips.txt'' := None, ''routes.txt'' := None)) ''stops.txt'' \<noteq> None
   \<and> (feed_overnight(''trips.txt'' := None, ''routes.txt'' := None)) ''stop_times.txt'' \<noteq> None
   \<and> preprocessGTFS (feed_overnight(''trips.txt'' := None, ''routes.txt'' := None)) =
       Inl (ENOENT ''trips.txt'')
   \<and> feed_overnight ''stops.txt'' \<noteq> None \<and> feed_overnight ''stop_times.txt'' \<noteq> None
   \<and> feed_overnight ''trips.txt'' \<noteq> None \<and> feed_overnight ''routes.txt'' \<noteq> None
   \<and> (preprocessGTFS feed_overnight = Inl TypeError
        \<or> (\<exists>n. preprocessGTFS feed_overnight = Inr n))
   \<and> ''location_type'' \<notin> set [''stop_id'', ''stop_name'']
   \<and> indexOf [''stop_id'', ''stop_name''] ''location_type'' = -1
   \<and> cell_at [''A'', ''Alpha''] (indexOf [''stop_id'', ''stop_name''] ''location_type'') = None"
proof -
  let ?fs = "feed_overnight(''trips.txt'' := None, ''routes.txt'' := None)"
  have idx: "(2 :: nat) < length requiredFiles \<and> requiredFiles ! 2 = ''trips.txt''
      \<and> requiredFiles ! 0 = ''stops.txt'' \<and> requiredFiles ! 1 = ''stop_times.txt''"
    by (simp add: requiredFiles_def)
  have here: "feed_overnight ''stops.txt'' \<noteq> None \<and> feed_overnight ''stop_times.txt'' \<noteq> None
      \<and> feed_overnight ''trips.txt'' \<noteq> None \<and> feed_overnight ''routes.txt'' \<noteq> None"
    by (simp add: feed_overnight_def)
  have gone: "?fs ''trips.txt'' = None \<and> ?fs ''routes.txt'' = None
      \<and> ?fs ''stops.txt'' \<noteq> None \<and> ?fs ''stop_times.txt'' \<noteq> None"
    using here by simp
  have third: "?fs (requiredFiles ! 2) = None"
    using gone idx by simp
  have earlier: "\<forall>j < 2. ?fs (requiredFiles ! j) \<noteq> None"
    using gone idx by (simp add: less_Suc_eq numeral_2_eq_2)
  have "preprocessGTFS ?fs = Inl (ENOENT (requiredFiles ! 2))"
    using ingestion_errors [of ?fs, THEN conjunct1, THEN spec, of 2, THEN mp,
        OF idx [THEN conjunct1], THEN mp, OF conjI [OF third earlier]] .
  then have a: "preprocessGTFS ?fs = Inl (ENOENT ''trips.txt'')"
    using idx by simp
  have present: "\<forall>f \<in> set requiredFiles. feed_overnight f \<noteq> None"
    using here by (simp add: requiredFiles_def)
  have b: "preprocessGTFS feed_overnight = Inl TypeError
      \<or> (\<exists>n. preprocessGTFS feed_overnight = Inr n)"
    using ingestion_errors [of feed_overnight, THEN conjunct2, THEN conjunct1] present
    by (rule mp)
  have absent: "''location_type'' \<notin> set [''stop_id'', ''stop_name'']"
    by simp
  have c: "indexOf [''stop_id'', ''stop_name''] ''location_type'' = -1
      \<and> cell_at [''A'', ''Alpha''] (indexOf [''stop_id'', ''stop_name''] ''location_type'') = None"
    using ingestion_errors [where col = "''location_type''" and header = "[''stop_id'', ''stop_name'']"
        and row = "[''A'', ''Alpha'']", THEN conjunct2, THEN conjunct2] absent
    by (rule mp)
  from idx gone a here b absent c show ?thesis
    by (intro conjI) (elim conjE, assumption)+
qed

text \<open>
  Without the \<open>arrival_time\<close> column the arrival cell of the first pair examined is
  \<open>undefined\<close>, and \<open>timeToSeconds\<close> throws.
\<close>

lemma missing_time_column: "preprocessGTFS feed_no_arrival_time = Inl TypeError"
  by code_simp

text \<open>
  C4 as stated fails on \<open>feed_no_location_type\<close>: the four files are there, the stops
  table has no \<open>location_type\<close> column, and ingestion returns a network all the same,
  with an edge between two stations and no station.
\<close>

theorem missing_header_counterexample:
  "feed_no_location_type ''stops.txt'' \<noteq> None
   \<and> feed_no_location_type ''stop_times.txt'' \<noteq> None
   \<and> feed_no_location_type ''trips.txt'' \<noteq> None
   \<and> feed_no_location_type ''routes.txt'' \<noteq> None
   \<and> bindE (parseCSV feed_no_location_type ''stops.txt'') headerOf =
       Inr [''stop_id'', ''stop_name'', ''stop_lat'', ''stop_lon'', ''parent_station'']
   \<and> preprocessGTFS feed_no_location_type =
       Inr \<lparr>stations = [],
            edges = [\<lparr>fromId = Some ''A'', toId = Some ''B'', travelTimeSec = Num 30,
                      routeId = Some ''R''\<rparr>]\<rparr>"
  by code_simp

subsection \<open>The bounds of the travel times\<close>

lemma set_insert_cmp: "set (insert_cmp cmp x ys) = insert x (set ys)"
  by (induction ys) auto

lemma set_sort_cmp: "set (sort_cmp cmp xs) = set xs"
  by (induction xs) (simp_all add: sort_cmp_def set_insert_cmp)

lemma plausible_num_at: "\<forall>v \<in> set xs. plausible v \<Longrightarrow> plausible (num_at xs i)"
  by (auto simp: num_at_def cell_at_def plausible_def)

lemma plausible_mean: "plausible a \<Longrightarrow> plausible b \<Longrightarrow> plausible (js_half (js_add a b))"
  by (cases a; cases b) (auto simp: plausible_def)

lemma plausible_median: "\<forall>v \<in> set xs. plausible v \<Longrightarrow> plausible (median xs)"
  unfolding median_def Let_def
  by (auto intro!: plausible_mean plausible_num_at simp: set_sort_cmp)

lemma plausible_round: "plausible v \<Longrightarrow> plausible (Math_round v)"
proof (cases v)
  case (Num x)
  assume "plausible v"
  then have x: "0 \<le> x" "x \<le> 3600" using Num by (auto simp: plausible_def)
  have "0 \<le> \<lfloor>x + 1 / 2\<rfloor>" using x(1) by simp
  moreover have "\<lfloor>x + 1 / 2\<rfloor> \<le> 3600"
  proof -
    have "x + 1 / 2 < 3601" using x(2) by simp
    then have "\<lfloor>x + 1 / 2\<rfloor> < 3601" by (simp add: floor_less_iff)
    then show ?thesis by simp
  qed
  ultimately show ?thesis using Num by (simp add: plausible_def)
next
  case NaN
  then show ?thesis by (simp add: plausible_def)
qed

lemma plausible_guard:
  "\<not> js_lt v (Num 0) \<Longrightarrow> \<not> js_gt v (Num 3600) \<Longrightarrow> plausible v"
  by (cases v) (auto simp: plausible_def)

lemma addPair_plausible:
  "plausible_times s \<Longrightarrow> addPair p r s x = Inr s' \<Longrightarrow> plausible_times s'"
  unfolding addPair_def bindE_def Let_def plausible_times_def
  by (auto simp: update_conv' entries_of_def plausible_guard
      split: if_splits sum.splits option.splits)

lemma foldE_preserves:
  assumes "\<And>s x s'. P s \<Longrightarrow> f s x = Inr s' \<Longrightarrow> P s'"
  shows "P s \<Longrightarrow> foldE f s xs = Inr s' \<Longrightarrow> P s'"
proof (induction xs arbitrary: s)
  case Nil
  then show ?case by simp
next
  case (Cons x xs)
  then show ?case using assms by (auto split: sum.splits)
qed

lemma processTrip_plausible:
  assumes "plausible_times s" "processTrip p t s x = Inr s'"
  shows "plausible_times s'"
proof (cases "\<exists>route. map_get t (fst x) = Some route \<and> route \<noteq> []")
  case False
  then have "s' = s"
    using assms(2) unfolding processTrip_def Let_def
    by (auto split: option.splits if_splits)
  then show ?thesis using assms(1) by simp
next
  case True
  then obtain route where "map_get t (fst x) = Some route" "route \<noteq> []"
    by blast
  then have "foldE (addPair p route) s
      (consecutive (sort_cmp (\<lambda>a b. js_sub (sequence a) (sequence b)) (snd x))) = Inr s'"
    using assms(2) unfolding processTrip_def Let_def by simp
  then show ?thesis
  proof (rule foldE_preserves [where P = plausible_times, rotated 2])
    show "plausible_times s" by (rule assms(1))
    show "plausible_times b" if "plausible_times a" "addPair p route a y = Inr b" for a y b
      using that by (rule addPair_plausible)
  qed
qed

lemma collectTravelTimes_plausible:
  assumes "collectTravelTimes h1 h2 h3 a b c = Inr m"
  shows "plausible_times m"
proof -
  have base: "plausible_times []"
    by (simp add: plausible_times_def)
  have "foldE (processTrip (fst (stopMaps h1 a))
          (foldl (scanPair h3 ''trip_id'' ''route_id'') [] (tl c))) []
        (foldl (scanStopTime h2) [] (tl b)) = Inr m"
    using assms unfolding collectTravelTimes_def Let_def .
  then show ?thesis
  proof (rule foldE_preserves [where P = plausible_times, rotated 2])
    show "plausible_times []" by (rule base)
    show "plausible_times s'"
      if "plausible_times s"
        "processTrip (fst (stopMaps h1 a))
           (foldl (scanPair h3 ''trip_id'' ''route_id'') [] (tl c)) s y = Inr s'" for s y s'
      using that by (rule processTrip_plausible)
  qed
qed

text \<open>
  Every edge of a returned network has a travel time that is a number from 0 to 3600
  or \<open>NaN\<close>.
\<close>

lemma edges_plausible:
  assumes "preprocessGTFS fs = Inr n" "e \<in> set (edges n)"
  shows "plausible (travelTimeSec e)"
proof -
  obtain h1 h2 h3 a b c m where run: "collectTravelTimes h1 h2 h3 a b c = Inr m"
    and edges: "edges n = aggregateEdges m"
    using assms(1) unfolding preprocessGTFS_def bindE_def
    by (auto split: sum.splits)
  note m = collectTravelTimes_plausible [OF run] collectTravelTimes_distinct [OF run] edges
  obtain k ts where kts: "(k, ts) \<in> set m" "e = edgeOfEntry (k, ts)"
    using assms(2) m(3) by (auto simp: aggregateEdges_def)
  have "map_of m k = Some ts"
    using kts(1) m(2) by simp
  then have "\<forall>v \<in> set ts. plausible v"
    using m(1) unfolding plausible_times_def by blast
  then show ?thesis
    unfolding kts(2) edgeOfEntry_def Let_def
    by (simp add: plausible_round plausible_median)
qed

text \<open>
  C6 on \<open>feed_blank_times\<close>: the empty time of the middle stop is \<open>NaN\<close> in seconds, the
  guard \<open>adjustedTravelTime < 0 || adjustedTravelTime > 3600\<close> is false on \<open>NaN\<close>, and the
  two edges through the middle stop are emitted with the travel time \<open>NaN\<close>, which is
  neither at least 0 nor at most 3600.
\<close>

theorem blank_time_edge:
  "preprocessGTFS feed_blank_times =
     Inr \<lparr>stations =
            [\<lparr>station_id = Some ''A'', name = Some ''Alpha'', lat = ParseFloat (Some ''40.7''),
              lon = ParseFloat (Some ''-74.0''), accessible = False, routesServed = [''Red'']\<rparr>,
             \<lparr>station_id = Some ''B'', name = Some ''Beta'', lat = ParseFloat (Some ''40.8''),
              lon = ParseFloat (Some ''-74.0''), accessible = False, routesServed = [''Red'']\<rparr>,
             \<lparr>station_id = Some ''C'', name = Some ''Gamma'', lat = ParseFloat (Some ''40.9''),
              lon = ParseFloat (Some ''-74.0''), accessible = False, routesServed = [''Red'']\<rparr>],
          edges =
            [\<lparr>fromId = Some ''A'', toId = Some ''B'', travelTimeSec = NaN, routeId = Some ''R''\<rparr>,
             \<lparr>fromId = Some ''B'', toId = Some ''C'', travelTimeSec = NaN, routeId = Some ''R''\<rparr>]\<rparr>
   \<and> \<not> js_lt NaN (Num 0) \<and> \<not> js_gt NaN (Num 3600)
   \<and> \<not> js_lt (Num 0) NaN \<and> \<not> js_gt (Num 3600) NaN"
  by code_simp

section \<open>Properties of the graph and of the search\<close>

lemma line_graph:
  "buildGraph line_network =
     [(''A'', [\<lparr>fromId = ''A'', toId = ''B'', travelTimeSec = 60, routeId = ''1''\<rparr>]),
      (''B'', [\<lparr>fromId = ''B'', toId = ''C'', travelTimeSec = 120, routeId = ''1''\<rparr>]),
      (''C'', [])]"
  by code_simp

text \<open>
  C1. On the line A to B (60 s), B to C (120 s), from the single start A with a
  non-negative remaining time, the search within 200 s returns exactly A at 0, B at 60
  and C at 180, and within 170 s exactly A at 0 and B at 60.
\<close>

theorem line_graph_search:
  assumes "0 \<le> r"
  shows "findReachableStations [\<lparr>stationId = ''A'', remainingTimeSec = r\<rparr>] 200
           (buildGraph line_network) = Some [(''A'', 0), (''B'', 60), (''C'', 180)]
       \<and> findReachableStations [\<lparr>stationId = ''A'', remainingTimeSec = r\<rparr>] 170
           (buildGraph line_network) = Some [(''A'', 0), (''B'', 60)]"
  using assms unfolding line_graph
  by (simp add: findReachableStations_def seedStart_def drain.simps visit_def expand_def
      relaxEdge_def withinLimit_def)

theorem line_graph_search_witness:
  "(0 :: int) \<le> 200
   \<and> findReachableStations [\<lparr>stationId = ''A'', remainingTimeSec = 200\<rparr>] 200
        (buildGraph line_network) = Some [(''A'', 0), (''B'', 60), (''C'', 180)]
   \<and> findReachableStations [\<lparr>stationId = ''A'', remainingTimeSec = 200\<rparr>] 170
        (buildGraph line_network) = Some [(''A'', 0), (''B'', 60)]"
proof -
  have h: "(0 :: int) \<le> 200" by simp
  from h line_graph_search [OF h] show ?thesis by (rule conjI)
qed

lemma map_of_stations:
  "map_of (foldl (\<lambda>g s. AList.update (station_id s) [] g) g sts) k =
     (if k \<in> station_id ` set sts then Some [] else map_of g k)"
  by (induction sts arbitrary: g) (auto simp: update_conv')

lemma map_of_addEdge:
  "map_of (addEdge g e) k =
     (if fromId e = k then map_option (\<lambda>es. es @ [e]) (map_of g k) else map_of g k)"
  by (auto simp: addEdge_def update_conv' split: option.splits)

lemma map_of_addEdges:
  "map_of (foldl addEdge g es) k =
     map_option (\<lambda>l. l @ filter (\<lambda>e. fromId e = k) es) (map_of g k)"
proof (induction es arbitrary: g)
  case Nil
  then show ?case by (simp add: option.map_ident)
next
  case (Cons e es)
  show ?case
    by (cases "map_of g k") (simp_all add: Cons map_of_addEdge)
qed

lemma map_of_buildGraph:
  "map_of (buildGraph net) k =
     (if k \<in> station_id ` set (stations net)
      then Some (filter (\<lambda>e. fromId e = k) (edges net)) else None)"
  by (simp add: buildGraph_def map_of_addEdges map_of_stations)

lemma expand_no_edges:
  "map_of g i = None \<or> map_of g i = Some [] \<Longrightarrow> expand maxTimeSec g t i dq = dq"
  by (auto simp: expand_def)

text \<open>
  C9. The graph has an entry for the id of every station of the network: the edges
  of the network that leave the station, in their order. A station without outgoing
  edges has the empty entry, and the search treats the empty entry and the missing
  entry alike: nothing is expanded.
\<close>

theorem buildGraph_entries:
  "(\<forall>s \<in> set (stations net).
      map_of (buildGraph net) (station_id s) =
        Some (filter (\<lambda>e. fromId e = station_id s) (edges net)))
   \<and> (\<forall>s \<in> set (stations net).
        (\<forall>e \<in> set (edges net). fromId e \<noteq> station_id s) \<longrightarrow>
        map_of (buildGraph net) (station_id s) = Some []
        \<and> expand maxTimeSec (buildGraph net) t (station_id s) dq = dq)
   \<and> (map_of (buildGraph net) k = None \<longrightarrow>
        expand maxTimeSec (buildGraph net) t k dq = dq)"
proof -
  have a: "\<forall>s \<in> set (stations net).
      map_of (buildGraph net) (station_id s) =
        Some (filter (\<lambda>e. fromId e = station_id s) (edges net))"
    by (simp add: map_of_buildGraph)
  have b: "map_of (buildGraph net) (station_id s) = Some []"
    if "s \<in> set (stations net)" "\<forall>e \<in> set (edges net). fromId e \<noteq> station_id s" for s
  proof -
    have "filter (\<lambda>e. fromId e = station_id s) (edges net) = []"
      using that(2) by (simp add: filter_empty_conv)
    then show ?thesis using that(1) by (simp add: map_of_buildGraph)
  qed
  show ?thesis
    using a b expand_no_edges [of "buildGraph net"] by blast
qed

theorem buildGraph_entries_witness:
  "plain_station ''C'' 0 2 \<in> set (stations line_network)
   \<and> map_of (buildGraph line_network) (station_id (plain_station ''C'' 0 2)) =
       Some (filter (\<lambda>e. fromId e = station_id (plain_station ''C'' 0 2)) (edges line_network))
   \<and> map_of (buildGraph line_network) (station_id (plain_station ''C'' 0 2)) = Some []
   \<and> expand 200 (buildGraph line_network) 180 (station_id (plain_station ''C'' 0 2)) ([], []) =
       ([], [])
   \<and> map_of (buildGraph line_network) ''D'' = None
   \<and> expand 200 (buildGraph line_network) 0 ''D'' ([], []) = ([], [])"
proof -
  note inst = buildGraph_entries [of line_network 200 180 "([], [])" "''D''"]
  note inst' = buildGraph_entries [of line_network 200 0 "([], [])" "''D''"]
  have mem: "plain_station ''C'' 0 2 \<in> set (stations line_network)"
    by (simp add: line_network_def)
  have none: "\<forall>e \<in> set (edges line_network). fromId e \<noteq> station_id (plain_station ''C'' 0 2)"
    by (simp add: line_network_def plain_station_def)
  have unknown: "map_of (buildGraph line_network) ''D'' = None"
    by (simp add: line_graph)
  have a: "map_of (buildGraph line_network) (station_id (plain_station ''C'' 0 2)) =
       Some (filter (\<lambda>e. fromId e = station_id (plain_station ''C'' 0 2)) (edges line_network))"
    using inst [THEN conjunct1] mem by (rule bspec)
  have b: "map_of (buildGraph line_network) (station_id (plain_station ''C'' 0 2)) = Some []
      \<and> expand 200 (buildGraph line_network) 180 (station_id (plain_station ''C'' 0 2)) ([], []) =
          ([], [])"
    using inst [THEN conjunct2, THEN conjunct1, THEN bspec, OF mem] none by (rule mp)
  have c: "expand 200 (buildGraph line_network) 0 ''D'' ([], []) = ([], [])"
    using inst' [THEN conjunct2, THEN conjunct2] unknown by (rule mp)
  from mem a b unknown c show ?thesis
    by (intro conjI) (elim conjE, assumption)+
qed

subsection \<open>The loop of the search\<close>

lemma reaches_mono:
  "reaches t1 g S k t \<Longrightarrow> t1 \<le> t2 \<Longrightarrow> reaches t2 g S k t"
proof (induction rule: reaches.induct)
  case (start s)
  then show ?case by (simp add: reaches.start)
next
  case (step u t es e)
  then show ?case by (auto intro: reaches.step)
qed

text \<open>One edge.\<close>

lemma relaxEdge_eq:
  "relaxEdge maxT cur dq e =
     (if cur + travelTimeSec e \<le> maxT
         \<and> (\<forall>t. map_of (fst dq) (toId e) = Some t \<longrightarrow> cur + travelTimeSec e < t)
      then (AList.update (toId e) (cur + travelTimeSec e) (fst dq),
            sort_key fst (snd dq @ [(cur + travelTimeSec e, toId e)]))
      else dq)"
  by (auto simp: relaxEdge_def Let_def split: option.splits)

lemma step_ok_refl: "step_ok maxT cur es dq dq"
  by (auto simp: step_ok_def)

lemma step_ok_relaxEdge: "step_ok maxT cur [e] dq (relaxEdge maxT cur dq e)"
  by (auto simp: relaxEdge_eq step_ok_def update_conv')

lemma distinct_relaxEdge:
  "distinct (map fst (fst dq)) \<Longrightarrow> distinct (map fst (fst (relaxEdge maxT cur dq e)))"
  by (simp add: relaxEdge_eq distinct_update)

lemma distinct_foldl_relaxEdge:
  "distinct (map fst (fst dq)) \<Longrightarrow>
     distinct (map fst (fst (foldl (relaxEdge maxT cur) dq es)))"
  by (induction es arbitrary: dq) (simp_all add: distinct_relaxEdge)

lemma step_ok_trans:
  assumes "step_ok maxT cur es1 dq dq1" "step_ok maxT cur es2 dq1 dq2"
  shows "step_ok maxT cur (es1 @ es2) dq dq2"
  unfolding step_ok_def
proof (intro conjI allI impI)
  fix k t assume "map_of (fst dq) k = Some t"
  then obtain t1 where "t1 \<le> t" "map_of (fst dq1) k = Some t1"
    using assms(1) unfolding step_ok_def by blast
  moreover then obtain t2 where "t2 \<le> t1" "map_of (fst dq2) k = Some t2"
    using assms(2) unfolding step_ok_def by blast
  ultimately show "\<exists>t' \<le> t. map_of (fst dq2) k = Some t'"
    by auto
next
  fix k t assume "map_of (fst dq2) k = Some t"
  then consider "map_of (fst dq1) k = Some t"
    | "(t, k) \<in> set (snd dq2)" "t \<le> maxT" "\<exists>e \<in> set es2. k = toId e \<and> t = cur + travelTimeSec e"
    using assms(2) unfolding step_ok_def by blast
  then show "map_of (fst dq) k = Some t
           \<or> ((t, k) \<in> set (snd dq2) \<and> t \<le> maxT
               \<and> (\<exists>e \<in> set (es1 @ es2). k = toId e \<and> t = cur + travelTimeSec e))"
  proof cases
    case 1
    then consider "map_of (fst dq) k = Some t"
      | "(t, k) \<in> set (snd dq1)" "t \<le> maxT" "\<exists>e \<in> set es1. k = toId e \<and> t = cur + travelTimeSec e"
      using assms(1) unfolding step_ok_def by blast
    then show ?thesis
    proof cases
      case 1
      then show ?thesis by simp
    next
      case 2
      moreover have "set (snd dq1) \<subseteq> set (snd dq2)"
        using assms(2) by (simp add: step_ok_def)
      ultimately show ?thesis by auto
    qed
  next
    case 2
    then show ?thesis by auto
  qed
next
  show "set (snd dq) \<subseteq> set (snd dq2)"
    using assms unfolding step_ok_def by blast
next
  fix t k assume "(t, k) \<in> set (snd dq2)"
  then consider "(t, k) \<in> set (snd dq1)"
    | "t \<le> maxT" "\<exists>e \<in> set es2. k = toId e \<and> t = cur + travelTimeSec e"
    using assms(2) unfolding step_ok_def by blast
  then show "(t, k) \<in> set (snd dq)
           \<or> (t \<le> maxT \<and> (\<exists>e \<in> set (es1 @ es2). k = toId e \<and> t = cur + travelTimeSec e))"
  proof cases
    case 1
    then have "(t, k) \<in> set (snd dq)
        \<or> (t \<le> maxT \<and> (\<exists>e \<in> set es1. k = toId e \<and> t = cur + travelTimeSec e))"
      using assms(1) unfolding step_ok_def by blast
    then show ?thesis by auto
  next
    case 2
    then show ?thesis by auto
  qed
qed

lemma step_ok_foldl: "step_ok maxT cur es dq (foldl (relaxEdge maxT cur) dq es)"
proof (induction es arbitrary: dq)
  case Nil
  then show ?case by (simp add: step_ok_refl)
next
  case (Cons e es)
  have "step_ok maxT cur ([e] @ es) dq (foldl (relaxEdge maxT cur) (relaxEdge maxT cur dq e) es)"
    by (rule step_ok_trans [OF step_ok_relaxEdge Cons])
  then show ?case by simp
qed

text \<open>After the loop over the edges every edge inside the limit is relaxed.\<close>

lemma relaxed_relaxEdge:
  assumes "cur + travelTimeSec e \<le> maxT"
  shows "\<exists>t'. map_of (fst (relaxEdge maxT cur dq e)) (toId e) = Some t' \<and> t' \<le> cur + travelTimeSec e"
  using assms by (cases "map_of (fst dq) (toId e)") (auto simp: relaxEdge_eq update_conv' not_less)

lemma relaxed_foldl:
  assumes "e \<in> set es" "cur + travelTimeSec e \<le> maxT"
  shows "\<exists>t'. map_of (fst (foldl (relaxEdge maxT cur) dq es)) (toId e) = Some t'
           \<and> t' \<le> cur + travelTimeSec e"
  using assms(1)
proof (induction es arbitrary: dq)
  case Nil
  then show ?case by simp
next
  case (Cons x es)
  show ?case
  proof (cases "e = x")
    case True
    obtain t1 where t1: "map_of (fst (relaxEdge maxT cur dq x)) (toId e) = Some t1"
        "t1 \<le> cur + travelTimeSec e"
      using relaxed_relaxEdge [OF assms(2), of dq] True by auto
    have "step_ok maxT cur es (relaxEdge maxT cur dq x)
        (foldl (relaxEdge maxT cur) (relaxEdge maxT cur dq x) es)"
      by (rule step_ok_foldl)
    then obtain t2 where "t2 \<le> t1"
        "map_of (fst (foldl (relaxEdge maxT cur) (relaxEdge maxT cur dq x) es)) (toId e) = Some t2"
      using t1(1) unfolding step_ok_def by blast
    then show ?thesis using t1(2) by auto
  next
    case False
    then have "e \<in> set es" using Cons.prems by simp
    then show ?thesis using Cons.IH by simp
  qed
qed

lemma closed_decrease:
  assumes "closed maxT g d k t"
    and "\<forall>k t. map_of d k = Some t \<longrightarrow> (\<exists>t' \<le> t. map_of d' k = Some t')"
  shows "closed maxT g d' k t"
  unfolding closed_def
proof (intro impI allI)
  fix es e
  assume "t \<le> maxT" "map_of g k = Some es" "e \<in> set es" "t + travelTimeSec e \<le> maxT"
  then obtain t1 where "map_of d (toId e) = Some t1" "t1 \<le> t + travelTimeSec e"
    using assms(1) unfolding closed_def by blast
  moreover then obtain t2 where "t2 \<le> t1" "map_of d' (toId e) = Some t2"
    using assms(2) by blast
  ultimately show "\<exists>t'. map_of d' (toId e) = Some t' \<and> t' \<le> t + travelTimeSec e"
    by auto
qed

lemma visit_eq:
  "visit maxT g entry dq =
     (if (\<exists>best. map_of (fst dq) (snd entry) = Some best \<and> best < fst entry)
         \<or> \<not> fst entry \<le> maxT \<or> map_of g (snd entry) = None
      then dq
      else foldl (relaxEdge maxT (fst entry)) dq (the (map_of g (snd entry))))"
  by (auto simp: visit_def expand_def split: option.splits)

lemma search_inv_visit:
  assumes inv: "search_inv maxT g S (d, entry # rest)"
  shows "search_inv maxT g S (visit maxT g entry (d, rest))"
proof -
  obtain cur cid where entry: "entry = (cur, cid)" by (cases entry)
  have dist: "distinct (map fst d)"
    and sound_d: "\<And>k t. map_of d k = Some t \<Longrightarrow> reaches maxT g S k t"
    and sound_q: "\<And>t k. (t, k) \<in> set (entry # rest) \<Longrightarrow> reaches maxT g S k t"
    and starts: "\<And>s. s \<in> S \<Longrightarrow> \<exists>t \<le> 0. map_of d s = Some t"
    and clos: "\<And>k t. map_of d k = Some t \<Longrightarrow>
                 (t, k) \<in> set (entry # rest) \<or> closed maxT g d k t"
    using inv unfolding search_inv_def by auto
  have here: "reaches maxT g S cid cur"
    using sound_q [of cur cid] entry by simp
  show ?thesis
  proof (cases "(\<exists>best. map_of d cid = Some best \<and> best < cur) \<or> \<not> cur \<le> maxT
      \<or> map_of g cid = None")
    case True
    then have v: "visit maxT g entry (d, rest) = (d, rest)"
      by (simp add: visit_eq entry)
    have "(t, k) \<in> set rest \<or> closed maxT g d k t" if "map_of d k = Some t" for k t
    proof (cases "(t, k) = (cur, cid)")
      case False
      then show ?thesis using clos [OF that] entry by auto
    next
      case same: True
      then have "map_of d cid = Some cur" using that by simp
      then have "\<not> cur \<le> maxT \<or> map_of g cid = None" using True by auto
      then have "closed maxT g d k t" using same by (auto simp: closed_def)
      then show ?thesis ..
    qed
    then show ?thesis
      unfolding v search_inv_def using dist sound_d sound_q starts by auto
  next
    case False
    then obtain es where es: "map_of g cid = Some es" and le: "cur \<le> maxT"
      by auto
    define dq' where "dq' = foldl (relaxEdge maxT cur) (d, rest) es"
    have v: "visit maxT g entry (d, rest) = dq'"
      using False es by (auto simp: visit_eq entry dq'_def)
    have ok: "step_ok maxT cur es (d, rest) dq'"
      unfolding dq'_def by (rule step_ok_foldl)
    have decr: "\<forall>k t. map_of d k = Some t \<longrightarrow> (\<exists>t' \<le> t. map_of (fst dq') k = Some t')"
      using ok unfolding step_ok_def by simp
    have new_d: "map_of d k = Some t
        \<or> ((t, k) \<in> set (snd dq') \<and> t \<le> maxT
            \<and> (\<exists>e \<in> set es. k = toId e \<and> t = cur + travelTimeSec e))"
      if "map_of (fst dq') k = Some t" for k t
      using ok that unfolding step_ok_def by simp
    have sub: "set rest \<subseteq> set (snd dq')"
      using ok unfolding step_ok_def by simp
    have new_q: "(t, k) \<in> set rest
        \<or> (t \<le> maxT \<and> (\<exists>e \<in> set es. k = toId e \<and> t = cur + travelTimeSec e))"
      if "(t, k) \<in> set (snd dq')" for k t
      using ok that unfolding step_ok_def by simp
    have fresh: "reaches maxT g S k t"
      if "t \<le> maxT" "\<exists>e \<in> set es. k = toId e \<and> t = cur + travelTimeSec e" for k t
      using that reaches.step [OF here le es] by auto
    have c1: "distinct (map fst (fst dq'))"
      unfolding dq'_def using dist by (simp add: distinct_foldl_relaxEdge)
    have c2: "reaches maxT g S k t" if "map_of (fst dq') k = Some t" for k t
      using new_d [OF that] sound_d fresh by blast
    have c3: "reaches maxT g S k t" if "(t, k) \<in> set (snd dq')" for k t
      using new_q [OF that]
    proof
      assume "(t, k) \<in> set rest"
      then show ?thesis using sound_q [of t k] by simp
    next
      assume "t \<le> maxT \<and> (\<exists>e \<in> set es. k = toId e \<and> t = cur + travelTimeSec e)"
      then show ?thesis using fresh [of t k] by blast
    qed
    have c4: "\<exists>t \<le> 0. map_of (fst dq') s = Some t" if s: "s \<in> S" for s
    proof -
      obtain t where "t \<le> 0" "map_of d s = Some t" using starts [OF s] by blast
      moreover then obtain t' where "t' \<le> t" "map_of (fst dq') s = Some t'"
        using decr by blast
      ultimately show ?thesis by auto
    qed
    have c5: "(t, k) \<in> set (snd dq') \<or> closed maxT g (fst dq') k t"
      if kt: "map_of (fst dq') k = Some t" for k t
    proof -
      consider "map_of d k = Some t" | "(t, k) \<in> set (snd dq')"
        using new_d [OF kt] by blast
      then show ?thesis
      proof cases
        case 1
        then consider "(t, k) = (cur, cid)" | "(t, k) \<in> set rest" | "closed maxT g d k t"
          using clos [OF 1] entry by auto
        then show ?thesis
        proof cases
          case 1
          have "closed maxT g (fst dq') cid cur"
            unfolding closed_def dq'_def using es relaxed_foldl by auto
          then show ?thesis using 1 by simp
        next
          case 2
          then show ?thesis using sub by auto
        next
          case 3
          then show ?thesis using closed_decrease [OF 3 decr] by simp
        qed
      next
        case 2
        then show ?thesis ..
      qed
    qed
    show ?thesis
      unfolding v search_inv_def using c1 c2 c3 c4 c5 by blast
  qed
qed

lemma drain_invariant:
  assumes "drain maxT g dq = Some r"
    and "I dq"
    and step: "\<And>d entry rest. I (d, entry # rest) \<Longrightarrow> I (visit maxT g entry (d, rest))"
  shows "I (r, [])"
proof -
  let ?P = "\<lambda>(m :: int) (h :: graph) dq r. m = maxT \<longrightarrow> h = g \<longrightarrow> I dq \<longrightarrow> I (r, [])"
  have "?P maxT g dq r"
  proof (rule drain.raw_induct [where P = ?P, OF _ assms(1)])
    fix drain' m h dq' r'
    assume IH: "\<And>m h dq r. drain' m h dq = Some r \<Longrightarrow> ?P m h dq r"
      and eq: "(case snd dq' of [] \<Rightarrow> Some (fst dq')
                | entry # rest \<Rightarrow> drain' m h (visit m h entry (fst dq', rest))) = Some r'"
    show "?P m h dq' r'"
    proof (intro impI)
      assume m: "m = maxT" and h: "h = g" and I: "I dq'"
      show "I (r', [])"
      proof (cases "snd dq'")
        case Nil
        then have "dq' = (r', [])" using eq by (cases dq') simp
        then show ?thesis using I by simp
      next
        case (Cons entry rest)
        then have run: "drain' m h (visit m h entry (fst dq', rest)) = Some r'"
          using eq by simp
        have "dq' = (fst dq', entry # rest)" using Cons by (cases dq') simp
        then have "I (fst dq', entry # rest)" using I by simp
        then have "I (visit maxT g entry (fst dq', rest))" by (rule step)
        then show ?thesis using IH [OF run] m h by simp
      qed
    qed
  qed
  then show ?thesis using assms(2) by simp
qed

lemma drain_search_inv:
  assumes "drain maxT g dq = Some r" "search_inv maxT g S dq"
  shows "search_inv maxT g S (r, [])"
  using assms(1) assms(2) by (rule drain_invariant) (rule search_inv_visit)

text \<open>What the final distances are: sound and complete for the walks inside the limit.\<close>

lemma final_complete:
  assumes inv: "search_inv maxT g S (r, [])"
  shows "reaches maxT g S k t \<Longrightarrow> t \<le> maxT \<Longrightarrow> \<exists>t' \<le> t. map_of r k = Some t'"
proof (induction rule: reaches.induct)
  case (start s)
  then show ?case using inv unfolding search_inv_def by auto
next
  case (step u t es e)
  then obtain tu where tu: "tu \<le> t" "map_of r u = Some tu" by blast
  have "closed maxT g r u tu"
    using inv tu(2) unfolding search_inv_def by auto
  moreover have "tu \<le> maxT" "tu + travelTimeSec e \<le> maxT"
    using tu(1) step.hyps step.prems by auto
  ultimately obtain t' where "map_of r (toId e) = Some t'" "t' \<le> tu + travelTimeSec e"
    using step.hyps unfolding closed_def by blast
  then show ?case using tu(1) by auto
qed

lemma seed_fold:
  "map_of (fst (foldl seedStart dq ss)) k =
     (if k \<in> startSet ss then Some 0 else map_of (fst dq) k)
   \<and> set (snd (foldl seedStart dq ss)) = set (snd dq) \<union> (\<lambda>k. (0, k)) ` startSet ss
   \<and> (distinct (map fst (fst dq)) \<longrightarrow> distinct (map fst (fst (foldl seedStart dq ss))))"
proof (induction ss arbitrary: dq)
  case Nil
  then show ?case by (simp add: startSet_def)
next
  case (Cons s ss)
  have split: "startSet (s # ss) =
      (if 0 \<le> remainingTimeSec s then {stationId s} else {}) \<union> startSet ss"
    by (auto simp: startSet_def)
  note IH = Cons [of "seedStart dq s"]
  have one: "map_of (fst (seedStart dq s)) k =
      (if 0 \<le> remainingTimeSec s \<and> k = stationId s then Some 0 else map_of (fst dq) k)"
    "set (snd (seedStart dq s)) =
      set (snd dq) \<union> (if 0 \<le> remainingTimeSec s then {(0, stationId s)} else {})"
    "distinct (map fst (fst dq)) \<longrightarrow> distinct (map fst (fst (seedStart dq s)))"
    by (auto simp: seedStart_def update_conv' distinct_update)
  show ?case
    unfolding foldl_Cons split using IH one by auto
qed

lemma search_inv_initial:
  assumes "foldl seedStart ([], []) ss = (d0, q0)"
  shows "search_inv maxT g (startSet ss) (d0, sort_key fst q0)"
proof -
  have d0: "map_of d0 k = (if k \<in> startSet ss then Some 0 else None)" for k
    using seed_fold [of "([], [])" ss k] assms by simp
  have q0: "set q0 = (\<lambda>k. (0, k)) ` startSet ss"
    using seed_fold [of "([], [])" ss] assms by simp
  have dist: "distinct (map fst d0)"
    using seed_fold [of "([], [])" ss] assms by simp
  show ?thesis
    unfolding search_inv_def
    by (auto simp: d0 q0 dist intro: reaches.start split: if_splits)
qed

lemma map_of_filter_distinct:
  "distinct (map fst d) \<Longrightarrow>
     map_of (filter (\<lambda>e. P (snd e)) d) k =
       (case map_of d k of None \<Rightarrow> None | Some t \<Rightarrow> if P t then Some t else None)"
proof (induction d)
  case Nil
  then show ?case by simp
next
  case (Cons a d)
  have "map_of (filter (\<lambda>e. P (snd e)) d) (fst a) = None"
    using Cons.prems by (auto simp: map_of_eq_None_iff)
  then show ?case using Cons by (cases a) (auto split: option.splits)
qed

lemma update_fresh: "k \<notin> fst ` set al \<Longrightarrow> AList.update k v al = al @ [(k, v)]"
  by (induction al) auto

lemma withinLimit_append:
  "distinct (map fst d) \<Longrightarrow> fst ` set acc \<inter> fst ` set d = {} \<Longrightarrow>
     foldl (\<lambda>result entry.
              if snd entry \<le> maxT then AList.update (fst entry) (snd entry) result
              else result) acc d
     = acc @ filter (\<lambda>entry. snd entry \<le> maxT) d"
proof (induction d arbitrary: acc)
  case Nil
  then show ?case by simp
next
  case (Cons a d)
  have fresh: "fst a \<notin> fst ` set acc" "fst a \<notin> fst ` set d"
    using Cons.prems by auto
  show ?case
  proof (cases "snd a \<le> maxT")
    case True
    have "fst ` set (acc @ [(fst a, snd a)]) \<inter> fst ` set d = {}"
      using Cons.prems fresh by auto
    then show ?thesis
      using True Cons.IH [of "acc @ [(fst a, snd a)]"] Cons.prems fresh
      by (simp add: update_fresh)
  next
    case False
    then show ?thesis
      using Cons.IH [of acc] Cons.prems by auto
  qed
qed

lemma withinLimit_filter:
  "distinct (map fst d) \<Longrightarrow> withinLimit maxT d = filter (\<lambda>entry. snd entry \<le> maxT) d"
  unfolding withinLimit_def using withinLimit_append [of d "[]" maxT] by simp

text \<open>The result of the search, when it returns.\<close>

lemma findReachableStations_result:
  assumes "findReachableStations ss maxT g = Some r"
  shows "distinct (map fst r)"
    and "map_of r k = Some t \<Longrightarrow> reaches maxT g (startSet ss) k t \<and> t \<le> maxT"
    and "reaches maxT g (startSet ss) k t \<Longrightarrow> t \<le> maxT \<Longrightarrow> \<exists>t' \<le> t. map_of r k = Some t'"
proof -
  obtain d0 q0 where seed: "foldl seedStart ([], []) ss = (d0, q0)"
    by (cases "foldl seedStart ([], []) ss")
  obtain d where run: "drain maxT g (d0, sort_key fst q0) = Some d"
    and r': "r = withinLimit maxT d"
    using assms by (auto simp: findReachableStations_def seed)
  have inv: "search_inv maxT g (startSet ss) (d, [])"
    by (rule drain_search_inv [OF run search_inv_initial [OF seed]])
  have dist: "distinct (map fst d)"
    using inv by (simp add: search_inv_def)
  have r: "r = filter (\<lambda>e. snd e \<le> maxT) d"
    unfolding r' by (rule withinLimit_filter [OF dist])
  have look: "map_of r k = (case map_of d k of None \<Rightarrow> None
      | Some t \<Rightarrow> if t \<le> maxT then Some t else None)" for k
    unfolding r by (rule map_of_filter_distinct [OF dist])
  show "distinct (map fst r)"
    unfolding r using dist by (simp add: distinct_map_filter)
  show "reaches maxT g (startSet ss) k t \<and> t \<le> maxT" if "map_of r k = Some t"
    using that inv unfolding look search_inv_def by (auto split: option.splits if_splits)
  show "\<exists>t' \<le> t. map_of r k = Some t'"
    if walk: "reaches maxT g (startSet ss) k t" and le: "t \<le> maxT"
  proof -
    obtain t' where "t' \<le> t" "map_of d k = Some t'"
      using final_complete [OF inv walk le] by blast
    then show ?thesis using le by (auto simp: look)
  qed
qed

lemma findReachableStations_keys_mono:
  assumes "t1 \<le> t2"
    and "findReachableStations ss t1 g = Some r1"
    and "findReachableStations ss t2 g = Some r2"
  shows "fst ` set r1 \<subseteq> fst ` set r2"
proof
  fix k assume "k \<in> fst ` set r1"
  then obtain t where "map_of r1 k = Some t"
    by (cases "map_of r1 k") (auto simp: map_of_eq_None_iff)
  then have "reaches t1 g (startSet ss) k t" "t \<le> t1"
    using findReachableStations_result(2) [OF assms(2)] by auto
  then have "reaches t2 g (startSet ss) k t" "t \<le> t2"
    using assms(1) by (auto intro: reaches_mono)
  then obtain t' where "map_of r2 k = Some t'"
    using findReachableStations_result(3) [OF assms(3)] by blast
  then show "k \<in> fst ` set r2"
    by (metis map_of_SomeD fst_conv image_eqI)
qed

lemma finite_targets: "finite (targets g)"
  by (simp add: targets_def)

lemma targets_edge: "map_of g k = Some es \<Longrightarrow> e \<in> set es \<Longrightarrow> toId e \<in> targets g"
  by (force simp: targets_def dest: map_of_SomeD)

lemma nonneg_edge:
  "nonneg_graph g \<Longrightarrow> map_of g k = Some es \<Longrightarrow> e \<in> set es \<Longrightarrow> 0 \<le> travelTimeSec e"
  by (force simp: nonneg_graph_def list_all_iff dest: map_of_SomeD)

lemma pot_update:
  assumes "k \<in> targets g" "cost maxT (Some v) < cost maxT (map_of d k)"
  shows "pot g maxT (AList.update k v d) < pot g maxT d"
  unfolding pot_def
proof (rule sum_strict_mono_ex1)
  show "finite (targets g)" by (rule finite_targets)
  show "\<forall>x \<in> targets g. cost maxT (map_of (AList.update k v d) x) \<le> cost maxT (map_of d x)"
    using assms(2) by (simp add: update_conv')
  show "\<exists>a \<in> targets g. cost maxT (map_of (AList.update k v d) a) < cost maxT (map_of d a)"
    using assms by (auto simp: update_conv' intro!: bexI [of _ k])
qed

lemma weight_relaxEdge:
  assumes "toId e \<in> targets g" "0 \<le> cur" "0 \<le> travelTimeSec e"
  shows "weight g maxT (relaxEdge maxT cur dq e) \<le> weight g maxT dq"
proof (cases "cur + travelTimeSec e \<le> maxT
    \<and> (\<forall>t. map_of (fst dq) (toId e) = Some t \<longrightarrow> cur + travelTimeSec e < t)")
  case False
  then have "relaxEdge maxT cur dq e = dq"
    by (subst relaxEdge_eq) (simp only: if_False)
  then show ?thesis by simp
next
  case True
  then have "cost maxT (Some (cur + travelTimeSec e)) < cost maxT (map_of (fst dq) (toId e))"
    using assms(2,3) by (cases "map_of (fst dq) (toId e)") (auto simp: cost_def)
  then have "pot g maxT (AList.update (toId e) (cur + travelTimeSec e) (fst dq))
      < pot g maxT (fst dq)"
    using assms(1) by (rule pot_update [rotated])
  then show ?thesis using True by (simp add: relaxEdge_eq weight_def)
qed

lemma weight_foldl:
  assumes "\<forall>e \<in> set es. toId e \<in> targets g \<and> 0 \<le> travelTimeSec e" "0 \<le> cur"
  shows "weight g maxT (foldl (relaxEdge maxT cur) dq es) \<le> weight g maxT dq"
  using assms(1)
proof (induction es arbitrary: dq)
  case Nil
  then show ?case by simp
next
  case (Cons e es)
  have "weight g maxT (foldl (relaxEdge maxT cur) (relaxEdge maxT cur dq e) es)
      \<le> weight g maxT (relaxEdge maxT cur dq e)"
    using Cons by simp
  also have "\<dots> \<le> weight g maxT dq"
    using Cons.prems assms(2) by (simp add: weight_relaxEdge)
  finally show ?case by simp
qed

lemma visit_progress:
  assumes "nonneg_graph g" "\<forall>(t, k) \<in> set (entry # rest). 0 \<le> t"
  shows "weight g maxT (visit maxT g entry (d, rest)) < weight g maxT (d, entry # rest)"
    and "\<forall>(t, k) \<in> set (snd (visit maxT g entry (d, rest))). 0 \<le> t"
proof -
  have cur: "0 \<le> fst entry" using assms(2) by (cases entry) auto
  have es: "\<forall>e \<in> set es. toId e \<in> targets g \<and> 0 \<le> travelTimeSec e"
    if "map_of g (snd entry) = Some es" for es
    using that assms(1) by (auto intro: targets_edge nonneg_edge)
  have "weight g maxT (visit maxT g entry (d, rest)) \<le> weight g maxT (d, rest)"
    unfolding visit_eq using es cur by (auto simp: weight_foldl)
  then show "weight g maxT (visit maxT g entry (d, rest)) < weight g maxT (d, entry # rest)"
    by (simp add: weight_def)
  show "\<forall>(t, k) \<in> set (snd (visit maxT g entry (d, rest))). 0 \<le> t"
  proof (cases "(\<exists>best. map_of d (snd entry) = Some best \<and> best < fst entry)
      \<or> \<not> fst entry \<le> maxT \<or> map_of g (snd entry) = None")
    case True
    then show ?thesis using assms(2) by (simp add: visit_eq)
  next
    case False
    then obtain es where g: "map_of g (snd entry) = Some es" by auto
    have "step_ok maxT (fst entry) es (d, rest) (foldl (relaxEdge maxT (fst entry)) (d, rest) es)"
      by (rule step_ok_foldl)
    then have "(t, k) \<in> set rest \<or> (\<exists>e \<in> set es. t = fst entry + travelTimeSec e)"
      if "(t, k) \<in> set (snd (foldl (relaxEdge maxT (fst entry)) (d, rest) es))" for t k
      using that unfolding step_ok_def by fastforce
    then have "0 \<le> t"
      if "(t, k) \<in> set (snd (foldl (relaxEdge maxT (fst entry)) (d, rest) es))" for t k
      using that es [OF g] cur assms(2) by fastforce
    then show ?thesis using False g by (auto simp: visit_eq)
  qed
qed

lemma drain_returns:
  assumes "nonneg_graph g"
  shows "\<forall>(t, k) \<in> set (snd dq). 0 \<le> t \<Longrightarrow> \<exists>r. drain maxT g dq = Some r"
proof (induction "weight g maxT dq" arbitrary: dq rule: less_induct)
  case less
  show ?case
  proof (cases "snd dq")
    case Nil
    then show ?thesis by (subst drain.simps) simp
  next
    case (Cons entry rest)
    then have dq: "dq = (fst dq, entry # rest)" by (cases dq) simp
    have pos: "\<forall>(t, k) \<in> set (entry # rest). 0 \<le> t"
      using less.prems Cons by simp
    have "weight g maxT (visit maxT g entry (fst dq, rest)) < weight g maxT dq"
      using visit_progress(1) [OF assms pos, of maxT "fst dq"] dq by simp
    moreover have "\<forall>(t, k) \<in> set (snd (visit maxT g entry (fst dq, rest))). 0 \<le> t"
      by (rule visit_progress(2) [OF assms pos])
    ultimately obtain r where "drain maxT g (visit maxT g entry (fst dq, rest)) = Some r"
      using less.hyps by blast
    then show ?thesis using Cons by (subst drain.simps) simp
  qed
qed

lemma findReachableStations_returns:
  assumes "nonneg_graph g"
  shows "\<exists>r. findReachableStations ss maxT g = Some r"
proof -
  obtain d0 q0 where seed: "foldl seedStart ([], []) ss = (d0, q0)"
    by (cases "foldl seedStart ([], []) ss")
  have "set q0 = (\<lambda>k. (0, k)) ` startSet ss"
    using seed_fold [of "([], [])" ss] seed by simp
  then have "\<forall>(t, k) \<in> set (snd (d0, sort_key fst q0)). 0 \<le> t"
    by auto
  then obtain d where "drain maxT g (d0, sort_key fst q0) = Some d"
    using drain_returns [OF assms] by blast
  then show ?thesis by (simp add: findReachableStations_def seed)
qed

text \<open>
  C2. For budgets \<open>t1 \<le> t2\<close>, every graph and every list of start stations: when the
  two searches return, each station id of the result for \<open>t1\<close> is in the result for
  \<open>t2\<close>; and on a graph whose travel times are non-negative both searches return.
\<close>

theorem search_monotonic:
  assumes "t1 \<le> t2"
  shows "(\<forall>r1 r2. findReachableStations ss t1 g = Some r1
            \<and> findReachableStations ss t2 g = Some r2 \<longrightarrow> fst ` set r1 \<subseteq> fst ` set r2)
       \<and> (nonneg_graph g \<longrightarrow>
            (\<exists>r1 r2. findReachableStations ss t1 g = Some r1
               \<and> findReachableStations ss t2 g = Some r2 \<and> fst ` set r1 \<subseteq> fst ` set r2))"
  using findReachableStations_keys_mono [OF assms, of ss g]
    findReachableStations_returns [of g ss t1] findReachableStations_returns [of g ss t2]
  by blast

theorem search_monotonic_witness:
  "(170 :: int) \<le> 200
   \<and> findReachableStations [\<lparr>stationId = ''A'', remainingTimeSec = 0\<rparr>] 170
        (buildGraph line_network) = Some [(''A'', 0), (''B'', 60)]
   \<and> findReachableStations [\<lparr>stationId = ''A'', remainingTimeSec = 0\<rparr>] 200
        (buildGraph line_network) = Some [(''A'', 0), (''B'', 60), (''C'', 180)]
   \<and> fst ` set [(''A'', 0 :: int), (''B'', 60)] \<subseteq> fst ` set [(''A'', 0 :: int), (''B'', 60), (''C'', 180)]
   \<and> nonneg_graph (buildGraph line_network)
   \<and> (\<exists>r1 r2. findReachableStations [\<lparr>stationId = ''A'', remainingTimeSec = 0\<rparr>] 170
                   (buildGraph line_network) = Some r1
          \<and> findReachableStations [\<lparr>stationId = ''A'', remainingTimeSec = 0\<rparr>] 200
                   (buildGraph line_network) = Some r2
          \<and> fst ` set r1 \<subseteq> fst ` set r2)"
proof -
  have le: "(170 :: int) \<le> 200"
    by simp
  note inst = search_monotonic [OF le, of "[\<lparr>stationId = ''A'', remainingTimeSec = 0\<rparr>]"
      "buildGraph line_network"]
  have r1: "findReachableStations [\<lparr>stationId = ''A'', remainingTimeSec = 0\<rparr>] 170
        (buildGraph line_network) = Some [(''A'', 0), (''B'', 60)]"
    by code_simp
  have r2: "findReachableStations [\<lparr>stationId = ''A'', remainingTimeSec = 0\<rparr>] 200
        (buildGraph line_network) = Some [(''A'', 0), (''B'', 60), (''C'', 180)]"
    by code_simp
  have pos: "nonneg_graph (buildGraph line_network)"
    by code_simp
  have sub: "fst ` set [(''A'', 0 :: int), (''B'', 60)]
      \<subseteq> fst ` set [(''A'', 0 :: int), (''B'', 60), (''C'', 180)]"
    by (rule inst [THEN conjunct1, THEN spec, THEN spec, THEN mp, OF conjI [OF r1 r2]])
  have ex: "\<exists>r1 r2. findReachableStations [\<lparr>stationId = ''A'', remainingTimeSec = 0\<rparr>] 170
                   (buildGraph line_network) = Some r1
          \<and> findReachableStations [\<lparr>stationId = ''A'', remainingTimeSec = 0\<rparr>] 200
                   (buildGraph line_network) = Some r2
          \<and> fst ` set r1 \<subseteq> fst ` set r2"
    by (rule inst [THEN conjunct2, THEN mp, OF pos])
  from le r1 r2 sub pos ex show ?thesis
    by (intro conjI)
qed

section \<open>Properties of the isochrone\<close>

lemma findNearestStations_set:
  "set (findNearestStations turf la lo sts mx) =
     {\<lparr>station = s, distanceMiles = calculateDistance turf la lo (lat s) (lon s),
       walkingTimeSec = calculateWalkingTime (calculateDistance turf la lo (lat s) (lon s))
                          WALKING_SPEED_MPH\<rparr> | s.
      s \<in> set sts \<and> calculateDistance turf la lo (lat s) (lon s) \<le> mx}"
  by (auto simp: findNearestStations_def Let_def)

lemma findNearestStations_empty:
  "findNearestStations turf la lo sts mx = [] \<longleftrightarrow>
     (\<forall>s \<in> set sts. mx < calculateDistance turf la lo (lat s) (lon s))"
proof -
  have "findNearestStations turf la lo sts mx = [] \<longleftrightarrow>
      set (findNearestStations turf la lo sts mx) = {}"
    by simp
  also have "\<dots> \<longleftrightarrow> (\<forall>s \<in> set sts. mx < calculateDistance turf la lo (lat s) (lon s))"
    unfolding findNearestStations_set by (auto simp: not_le)
  finally show ?thesis .
qed

lemma findNearestStations_sorted:
  "sorted (map distanceMiles (findNearestStations turf la lo sts mx))"
  by (simp add: findNearestStations_def)

lemma findNearestStations_walk:
  "n \<in> set (findNearestStations turf la lo sts mx) \<Longrightarrow>
     walkingTimeSec n = calculateWalkingTime (distanceMiles n) WALKING_SPEED_MPH"
  unfolding findNearestStations_set by auto

lemma calculateWalkingTime_mono:
  "a \<le> b \<Longrightarrow> calculateWalkingTime a WALKING_SPEED_MPH \<le> calculateWalkingTime b WALKING_SPEED_MPH"
  by (simp add: calculateWalkingTime_def WALKING_SPEED_MPH_def floor_mono)

lemma nearest_walks_least:
  assumes "n \<in> set (findNearestStations turf la lo sts mx)"
  shows "walkingTimeSec (hd (findNearestStations turf la lo sts mx)) \<le> walkingTimeSec n"
proof -
  let ?ns = "findNearestStations turf la lo sts mx"
  have ne: "?ns \<noteq> []" using assms by auto
  then have hd_in: "hd ?ns \<in> set ?ns" by simp
  have "sorted (map distanceMiles ?ns)" by (rule findNearestStations_sorted)
  then have "distanceMiles (hd ?ns) \<le> distanceMiles n"
    using assms ne by (cases ?ns) auto
  then show ?thesis
    using findNearestStations_walk [OF assms] findNearestStations_walk [OF hd_in]
    by (simp add: calculateWalkingTime_mono)
qed

lemma createIsochrone_no_valid_start:
  assumes "\<forall>n \<in> set (findNearestStations turf (latitude loc) (longitude loc) (stations net) mx).
             maxT \<le> walkingTimeSec n"
  shows "createIsochrone turf loc net maxT wd mx = Some None"
  using assms by (auto simp: createIsochrone_def Let_def filter_empty_conv)

text \<open>
  C10. When some station is within walking range and none of them has a walking time
  below the budget, \<open>createIsochrone\<close> returns \<open>null\<close>. The nearest station has the
  least walking time, so this is the case when its walking time equals the budget;
  yet the search from that station with the remaining budget 0, when it returns,
  has the station itself at a time that is not positive.
\<close>

theorem no_time_left_at_start:
  "(findNearestStations turf (latitude loc) (longitude loc) (stations net) mx \<noteq> []
      \<and> (\<forall>n \<in> set (findNearestStations turf (latitude loc) (longitude loc) (stations net) mx).
            \<not> walkingTimeSec n < maxT)
      \<longrightarrow> createIsochrone turf loc net maxT wd mx = Some None)
   \<and> (findNearestStations turf (latitude loc) (longitude loc) (stations net) mx \<noteq> []
      \<and> walkingTimeSec (hd (findNearestStations turf (latitude loc) (longitude loc)
                               (stations net) mx)) = maxT
      \<longrightarrow> createIsochrone turf loc net maxT wd mx = Some None)
   \<and> (walkingTimeSec n = maxT
      \<and> findReachableStations
            [\<lparr>stationId = station_id (station n),
              remainingTimeSec = maxT - walkingTimeSec n\<rparr>]
            (maxT - walkingTimeSec n) g = Some r
      \<longrightarrow> (\<exists>t \<le> 0. map_of r (station_id (station n)) = Some t))"
proof (intro conjI impI)
  assume a: "walkingTimeSec n = maxT
      \<and> findReachableStations
            [\<lparr>stationId = station_id (station n),
              remainingTimeSec = maxT - walkingTimeSec n\<rparr>]
            (maxT - walkingTimeSec n) g = Some r"
  let ?ss = "[\<lparr>stationId = station_id (station n),
               remainingTimeSec = maxT - walkingTimeSec n\<rparr>]"
  have "station_id (station n) \<in> startSet ?ss"
    using a by (force simp: startSet_def)
  then have "reaches (maxT - walkingTimeSec n) g (startSet ?ss) (station_id (station n)) 0"
    by (rule reaches.start)
  moreover have "0 \<le> maxT - walkingTimeSec n"
    using a by simp
  ultimately show "\<exists>t \<le> 0. map_of r (station_id (station n)) = Some t"
    using findReachableStations_result(3) [of ?ss "maxT - walkingTimeSec n" g r] a by blast
next
  assume "findNearestStations turf (latitude loc) (longitude loc) (stations net) mx \<noteq> []
      \<and> (\<forall>n \<in> set (findNearestStations turf (latitude loc) (longitude loc) (stations net) mx).
            \<not> walkingTimeSec n < maxT)"
  then show "createIsochrone turf loc net maxT wd mx = Some None"
    by (intro createIsochrone_no_valid_start) (auto simp: not_less)
next
  assume "findNearestStations turf (latitude loc) (longitude loc) (stations net) mx \<noteq> []
      \<and> walkingTimeSec (hd (findNearestStations turf (latitude loc) (longitude loc)
                               (stations net) mx)) = maxT"
  then show "createIsochrone turf loc net maxT wd mx = Some None"
    using nearest_walks_least [of _ turf "latitude loc" "longitude loc" "stations net" mx]
    by (intro createIsochrone_no_valid_start) auto
qed

theorem no_time_left_at_start_witness:
  "findNearestStations plane_turf (latitude (office (2 / 5))) (longitude (office (2 / 5)))
      (stations line_network) 1 =
     [\<lparr>station = plain_station ''A'' 0 0, distanceMiles = 2 / 5, walkingTimeSec = 480\<rparr>,
      \<lparr>station = plain_station ''B'' 0 1, distanceMiles = 3 / 5, walkingTimeSec = 720\<rparr>]
   \<and> \<not> (480 :: int) < 480 \<and> \<not> (720 :: int) < 480
   \<and> createIsochrone plane_turf (office (2 / 5)) line_network 480 (1 / 2) 1 = Some None
   \<and> findReachableStations [\<lparr>stationId = ''A'', remainingTimeSec = 0\<rparr>] 0
        (buildGraph line_network) = Some [(''A'', 0)]
   \<and> (\<exists>t \<le> 0. map_of [(''A'', 0 :: int)] ''A'' = Some t)"
proof -
  let ?n = "\<lparr>station = plain_station ''A'' 0 0, distanceMiles = 2 / 5, walkingTimeSec = 480\<rparr>"
  have alone: "findReachableStations
      [\<lparr>stationId = station_id (station ?n), remainingTimeSec = 480 - walkingTimeSec ?n\<rparr>]
      (480 - walkingTimeSec ?n) (buildGraph line_network) = Some [(''A'', 0)]"
    by code_simp
  have same: "walkingTimeSec ?n = 480"
    by simp
  have d: "\<exists>t \<le> 0. map_of [(''A'', 0 :: int)] (station_id (station ?n)) = Some t"
    by (rule no_time_left_at_start [where n = ?n and maxT = 480 and g = "buildGraph line_network"
          and r = "[(''A'', 0)]", THEN conjunct2, THEN conjunct2, THEN mp,
          OF conjI [OF same alone]])
  have d': "\<exists>t \<le> 0. map_of [(''A'', 0 :: int)] ''A'' = Some t"
    using d by (simp add: plain_station_def)
  have alone': "findReachableStations [\<lparr>stationId = ''A'', remainingTimeSec = 0\<rparr>] 0
        (buildGraph line_network) = Some [(''A'', 0)]"
    using alone by (simp add: plain_station_def)
  let ?ns = "findNearestStations plane_turf (latitude (office (2 / 5)))
      (longitude (office (2 / 5))) (stations line_network) 1"
  have near: "?ns =
     [\<lparr>station = plain_station ''A'' 0 0, distanceMiles = 2 / 5, walkingTimeSec = 480\<rparr>,
      \<lparr>station = plain_station ''B'' 0 1, distanceMiles = 3 / 5, walkingTimeSec = 720\<rparr>]"
    by code_simp
  have ne: "?ns \<noteq> []"
    by (simp add: near)
  have all: "\<forall>n \<in> set ?ns. \<not> walkingTimeSec n < 480"
    by (simp add: near)
  have first: "walkingTimeSec (hd ?ns) = 480"
    by (simp add: near)
  have a: "createIsochrone plane_turf (office (2 / 5)) line_network 480 (1 / 2) 1 = Some None"
    using no_time_left_at_start [where turf = plane_turf and loc = "office (2 / 5)"
        and net = line_network and mx = 1 and maxT = 480 and wd = "1 / 2", THEN conjunct1] ne all
    by (elim impE) (intro conjI, assumption+)
  have b: "createIsochrone plane_turf (office (2 / 5)) line_network 480 (1 / 2) 1 = Some None"
    using no_time_left_at_start [where turf = plane_turf and loc = "office (2 / 5)"
        and net = line_network and mx = 1 and maxT = 480 and wd = "1 / 2", THEN conjunct2,
        THEN conjunct1] ne first
    by (elim impE) (intro conjI, assumption+)
  have c: "\<not> (480 :: int) < 480 \<and> \<not> (720 :: int) < 480"
    by simp
  from near c a alone' d' show ?thesis
    by (intro conjI) (elim conjE, assumption)+
qed

text \<open>
  C5. \<open>createIsochrone\<close> returns \<open>null\<close> when every station is farther than the maximum
  walking distance, when every station within it has a walking time above the budget,
  and when the searches have returned and the union of the buffers yields nothing.
  The function has no \<open>throw\<close>; \<open>null\<close> is the value \<open>Some None\<close>, different from every
  result \<open>Some (Some r)\<close>.
\<close>

theorem nothing_found_is_null:
  "((\<forall>s \<in> set (stations net).
       mx < calculateDistance turf (latitude loc) (longitude loc) (lat s) (lon s))
      \<longrightarrow> createIsochrone turf loc net maxT wd mx = Some None)
   \<and> ((\<forall>n \<in> set (findNearestStations turf (latitude loc) (longitude loc) (stations net) mx).
         maxT < walkingTimeSec n)
      \<longrightarrow> createIsochrone turf loc net maxT wd mx = Some None)
   \<and> (mergeReachable maxT (buildGraph net)
         (findNearestStations turf (latitude loc) (longitude loc) (stations net) mx) [] = Some m
       \<and> unionBuffers turf
           (stationBuffers turf (stations net) wd
              (map (\<lambda>entry. \<lparr>reachableStation.stationId = fst entry,
                              reachableStation.travelTimeSec = snd entry\<rparr>) m)) = None
      \<longrightarrow> createIsochrone turf loc net maxT wd mx = Some None)"
proof (intro conjI impI)
  assume "\<forall>s \<in> set (stations net).
       mx < calculateDistance turf (latitude loc) (longitude loc) (lat s) (lon s)"
  then have "findNearestStations turf (latitude loc) (longitude loc) (stations net) mx = []"
    by (simp add: findNearestStations_empty)
  then show "createIsochrone turf loc net maxT wd mx = Some None"
    by (simp add: createIsochrone_def)
next
  assume "\<forall>n \<in> set (findNearestStations turf (latitude loc) (longitude loc) (stations net) mx).
         maxT < walkingTimeSec n"
  then show "createIsochrone turf loc net maxT wd mx = Some None"
    by (intro createIsochrone_no_valid_start) auto
next
  assume "mergeReachable maxT (buildGraph net)
         (findNearestStations turf (latitude loc) (longitude loc) (stations net) mx) [] = Some m
       \<and> unionBuffers turf
           (stationBuffers turf (stations net) wd
              (map (\<lambda>entry. \<lparr>reachableStation.stationId = fst entry,
                              reachableStation.travelTimeSec = snd entry\<rparr>) m)) = None"
  then show "createIsochrone turf loc net maxT wd mx = Some None"
    by (simp add: createIsochrone_def Let_def)
qed

theorem nothing_found_is_null_witness:
  "(1 :: real) < calculateDistance plane_turf (latitude (office 5)) (longitude (office 5)) 0 0
   \<and> (1 :: real) < calculateDistance plane_turf (latitude (office 5)) (longitude (office 5)) 0 1
   \<and> (1 :: real) < calculateDistance plane_turf (latitude (office 5)) (longitude (office 5)) 0 2
   \<and> createIsochrone plane_turf (office 5) line_network 900 (1 / 2) 1 = Some None
   \<and> (100 :: int) < 480 \<and> (100 :: int) < 720
   \<and> createIsochrone plane_turf (office (2 / 5)) line_network 100 (1 / 2) 1 = Some None
   \<and> mergeReachable 900 (buildGraph line_network)
        (findNearestStations plane_turf_null (latitude (office (2 / 5)))
           (longitude (office (2 / 5))) (stations line_network) 1) [] =
       Some [(''A'', 480), (''B'', 540), (''C'', 660)]
   \<and> createIsochrone plane_turf_null (office (2 / 5)) line_network 900 (1 / 2) 1 = Some None"
proof -
  let ?ns = "findNearestStations plane_turf (latitude (office (2 / 5)))
      (longitude (office (2 / 5))) (stations line_network) 1"
  let ?ns' = "findNearestStations plane_turf_null (latitude (office (2 / 5)))
      (longitude (office (2 / 5))) (stations line_network) 1"
  have far: "(1 :: real) < calculateDistance plane_turf (latitude (office 5)) (longitude (office 5)) 0 0
   \<and> (1 :: real) < calculateDistance plane_turf (latitude (office 5)) (longitude (office 5)) 0 1
   \<and> (1 :: real) < calculateDistance plane_turf (latitude (office 5)) (longitude (office 5)) 0 2"
    by (simp add: calculateDistance_def plane_turf_def office_def)
  then have far': "\<forall>s \<in> set (stations line_network).
      1 < calculateDistance plane_turf (latitude (office 5)) (longitude (office 5)) (lat s) (lon s)"
    by (simp add: line_network_def plain_station_def)
  have near: "?ns =
     [\<lparr>station = plain_station ''A'' 0 0, distanceMiles = 2 / 5, walkingTimeSec = 480\<rparr>,
      \<lparr>station = plain_station ''B'' 0 1, distanceMiles = 3 / 5, walkingTimeSec = 720\<rparr>]"
    by code_simp
  have slow: "(100 :: int) < 480 \<and> (100 :: int) < 720"
    by simp
  then have slow': "\<forall>n \<in> set ?ns. 100 < walkingTimeSec n"
    by (simp add: near)
  have merged: "mergeReachable 900 (buildGraph line_network) ?ns' [] =
      Some [(''A'', 480), (''B'', 540), (''C'', 660)]"
    by code_simp
  have no_union: "unionBuffers plane_turf_null
      (stationBuffers plane_turf_null (stations line_network) (1 / 2)
         (map (\<lambda>entry. \<lparr>reachableStation.stationId = fst entry,
                         reachableStation.travelTimeSec = snd entry\<rparr>)
            [(''A'', 480), (''B'', 540), (''C'', 660)])) = None"
    by (simp add: unionBuffers_def stationBuffers_def plane_turf_null_def line_network_def
        plain_station_def generateStationBuffer_def plane_turf_def)
  have a: "createIsochrone plane_turf (office 5) line_network 900 (1 / 2) 1 = Some None"
    using nothing_found_is_null [of line_network 1 plane_turf "office 5" 900 "1 / 2",
        THEN conjunct1] far'
    by (rule mp)
  have b: "createIsochrone plane_turf (office (2 / 5)) line_network 100 (1 / 2) 1 = Some None"
    using nothing_found_is_null [of line_network 1 plane_turf "office (2 / 5)" 100 "1 / 2",
        THEN conjunct2, THEN conjunct1] slow'
    by (rule mp)
  note both = conjI [OF merged no_union]
  have c: "createIsochrone plane_turf_null (office (2 / 5)) line_network 900 (1 / 2) 1 = Some None"
    by (rule nothing_found_is_null [of line_network 1 plane_turf_null "office (2 / 5)" 900 "1 / 2"
          "[(''A'', 480), (''B'', 540), (''C'', 660)]", THEN conjunct2, THEN conjunct2, THEN mp])
      (rule both)
  from far a slow b merged c show ?thesis
    by (intro conjI) (elim conjE, assumption)+
qed

subsection \<open>The merge across the start stations\<close>

lemma is_least_Min:
  "is_least v xs \<Longrightarrow> v = (if xs = [] then None else Some (Min (set xs)))"
  by (cases v) (auto simp: is_least_def intro!: Min_eqI [symmetric])

lemma map_of_mergeTime:
  "map_of (mergeTime w m entry) k =
     (if k = fst entry
      then (case map_of m k of
              None \<Rightarrow> Some (w + snd entry)
            | Some existing \<Rightarrow> Some (min existing (w + snd entry)))
      else map_of m k)"
  by (auto simp: mergeTime_def Let_def update_conv' split: option.splits)

lemma distinct_mergeTime:
  "distinct (map fst m) \<Longrightarrow> distinct (map fst (mergeTime w m entry))"
  by (auto simp: mergeTime_def Let_def distinct_update split: option.splits)

lemma distinct_foldl_mergeTime:
  "distinct (map fst m) \<Longrightarrow> distinct (map fst (foldl (mergeTime w) m r))"
  by (induction r arbitrary: m) (simp_all add: distinct_mergeTime)

lemma map_of_foldl_mergeTime:
  "distinct (map fst r) \<Longrightarrow>
     map_of (foldl (mergeTime w) m r) k =
       (case map_of r k of
          None \<Rightarrow> map_of m k
        | Some t \<Rightarrow>
            (case map_of m k of
               None \<Rightarrow> Some (w + t)
             | Some existing \<Rightarrow> Some (min existing (w + t))))"
proof (induction r arbitrary: m)
  case Nil
  then show ?case by simp
next
  case (Cons a r)
  have fresh: "map_of r (fst a) = None"
    using Cons.prems by (auto simp: map_of_eq_None_iff)
  have "distinct (map fst r)" using Cons.prems by simp
  note IH = Cons.IH [OF this, of "mergeTime w m a"]
  show ?case
    unfolding foldl_Cons IH
    by (auto simp: map_of_mergeTime fresh split: option.splits)
qed

lemma mergeReachable_least:
  "mergeReachable maxT g ns m = Some m' \<Longrightarrow>
     is_least (map_of m' k)
       ((case map_of m k of None \<Rightarrow> [] | Some x \<Rightarrow> [x]) @ startTotals maxT g ns k)"
proof (induction ns arbitrary: m)
  case Nil
  then show ?case by (auto simp: is_least_def startTotals_def split: option.splits)
next
  case (Cons n ns)
  show ?case
  proof (cases "walkingTimeSec n \<le> maxT")
    case False
    then have "mergeReachable maxT g ns m = Some m'"
      using Cons.prems by simp
    then show ?thesis
      using Cons.IH [of m] False by (simp add: startTotals_def)
  next
    case True
    let ?w = "walkingTimeSec n"
    let ?ss = "[\<lparr>stationId = station_id (station n), remainingTimeSec = maxT - ?w\<rparr>]"
    obtain r where r: "findReachableStations ?ss (maxT - ?w) g = Some r"
      and rest: "mergeReachable maxT g ns (foldl (mergeTime ?w) m r) = Some m'"
      using Cons.prems True by (auto split: option.splits)
    have dist: "distinct (map fst r)"
      by (rule findReachableStations_result(1) [OF r])
    have totals: "startTotals maxT g (n # ns) k =
        (case map_of r k of None \<Rightarrow> [] | Some t \<Rightarrow> [?w + t]) @ startTotals maxT g ns k"
      using True r by (simp add: startTotals_def)
    have "is_least (map_of m' k)
        ((case map_of (foldl (mergeTime ?w) m r) k of None \<Rightarrow> [] | Some x \<Rightarrow> [x])
          @ startTotals maxT g ns k)"
      by (rule Cons.IH [OF rest])
    then show ?thesis
      unfolding totals map_of_foldl_mergeTime [OF dist]
      by (cases "map_of m' k"; cases "map_of r k"; cases "map_of m k")
        (auto simp: is_least_def min_def split: if_splits)
  qed
qed

lemma mergeReachable_distinct:
  "mergeReachable maxT g ns m = Some m' \<Longrightarrow> distinct (map fst m) \<Longrightarrow> distinct (map fst m')"
proof (induction ns arbitrary: m)
  case Nil
  then show ?case by simp
next
  case (Cons n ns)
  then show ?case
    by (auto split: if_splits option.splits intro: distinct_foldl_mergeTime)
qed

lemma mergeReachable_Min:
  assumes "mergeReachable maxT g ns [] = Some m"
  shows "map_of m k =
      (if startTotals maxT g ns k = [] then None
       else Some (Min (set (startTotals maxT g ns k))))"
  using mergeReachable_least [OF assms, of k] by (auto dest: is_least_Min)

lemma createIsochrone_result:
  assumes "createIsochrone turf loc net maxT wd mx = Some (Some res)"
  shows "\<exists>m. mergeReachable maxT (buildGraph net)
             (findNearestStations turf (latitude loc) (longitude loc) (stations net) mx) [] = Some m
           \<and> reachableStations res =
               map (\<lambda>entry. \<lparr>reachableStation.stationId = fst entry,
                              reachableStation.travelTimeSec = snd entry\<rparr>) m
           \<and> totalStations res = length m"
  using assms
  by (auto simp: createIsochrone_def Let_def split: if_splits option.splits)

text \<open>
  A graph built from a network whose travel times are non-negative, as the data model
  has them, has only such times; on such a graph every search returns, and so do the
  merge and \<open>createIsochrone\<close>.
\<close>

lemma set_update_subset: "set (AList.update k v al) \<subseteq> insert (k, v) (set al)"
  by (induction al) auto

lemma nonneg_update:
  assumes "nonneg_graph g" "list_all (\<lambda>e. 0 \<le> travelTimeSec e) es"
  shows "nonneg_graph (AList.update k es g)"
  using assms set_update_subset [of k es g]
  unfolding nonneg_graph_def list_all_iff by fastforce

lemma nonneg_stations:
  "nonneg_graph g \<Longrightarrow> nonneg_graph (foldl (\<lambda>g s. AList.update (station_id s) [] g) g sts)"
  by (induction sts arbitrary: g) (simp_all add: nonneg_update)

lemma nonneg_addEdge:
  assumes "nonneg_graph g" "0 \<le> travelTimeSec e"
  shows "nonneg_graph (addEdge g e)"
proof (cases "map_of g (fromId e)")
  case None
  then show ?thesis using assms by (simp add: addEdge_def)
next
  case (Some es)
  then have "(fromId e, es) \<in> set g" by (rule map_of_SomeD)
  then have "list_all (\<lambda>e. 0 \<le> travelTimeSec e) es"
    using assms(1) unfolding nonneg_graph_def list_all_iff by fastforce
  then have "list_all (\<lambda>e. 0 \<le> travelTimeSec e) (es @ [e])"
    using assms(2) by simp
  then show ?thesis
    using Some assms(1) by (simp add: addEdge_def nonneg_update)
qed

lemma nonneg_addEdges:
  "nonneg_graph g \<Longrightarrow> list_all (\<lambda>e. 0 \<le> travelTimeSec e) es \<Longrightarrow>
     nonneg_graph (foldl addEdge g es)"
  by (induction es arbitrary: g) (simp_all add: nonneg_addEdge)

lemma nonneg_buildGraph:
  "list_all (\<lambda>e. 0 \<le> travelTimeSec e) (edges net) \<Longrightarrow> nonneg_graph (buildGraph net)"
  unfolding buildGraph_def
  by (rule nonneg_addEdges [OF nonneg_stations]) (simp_all add: nonneg_graph_def)

lemma mergeReachable_returns:
  assumes "nonneg_graph g"
  shows "\<exists>m'. mergeReachable maxT g ns m = Some m'"
proof (induction ns arbitrary: m)
  case Nil
  show ?case by simp
next
  case (Cons n ns)
  show ?case
  proof (cases "walkingTimeSec n \<le> maxT")
    case False
    then show ?thesis using Cons [of m] by simp
  next
    case True
    obtain r where "findReachableStations
        [\<lparr>stationId = station_id (station n), remainingTimeSec = maxT - walkingTimeSec n\<rparr>]
        (maxT - walkingTimeSec n) g = Some r"
      using findReachableStations_returns [OF assms] by blast
    then show ?thesis
      using True Cons [of "foldl (mergeTime (walkingTimeSec n)) m r"] by simp
  qed
qed

lemma createIsochrone_returns:
  assumes "nonneg_graph (buildGraph net)"
  shows "\<exists>m'. mergeReachable maxT (buildGraph net)
             (findNearestStations turf (latitude loc) (longitude loc) (stations net) mx) [] =
           Some m'
         \<and> (createIsochrone turf loc net maxT wd mx = Some None
              \<or> (\<exists>p. createIsochrone turf loc net maxT wd mx =
                      Some (Some \<lparr>polygon = p,
                                  reachableStations =
                                    map (\<lambda>entry. \<lparr>reachableStation.stationId = fst entry,
                                                   reachableStation.travelTimeSec = snd entry\<rparr>)
                                      m',
                                  totalStations = length m'\<rparr>)))"
proof -
  obtain m where "mergeReachable maxT (buildGraph net)
      (findNearestStations turf (latitude loc) (longitude loc) (stations net) mx) [] = Some m"
    using mergeReachable_returns [OF assms] by blast
  then show ?thesis
    by (simp add: createIsochrone_def Let_def split: option.splits)
qed

text \<open>
  C3. The loop of \<open>createIsochrone\<close> runs one search for each nearby station whose
  walking time is within the budget, from that station alone and with the remaining
  budget, and merges the results itself. A merged map that is returned has one entry
  for each destination that some search reaches, and its time is the least of the
  totals (walking time plus transit time) over those starts; these entries are the
  reachable stations of a result of \<open>createIsochrone\<close>. On a graph whose travel times
  are non-negative the merge does return such a map; on a network whose travel times
  are non-negative \<open>createIsochrone\<close> returns, and what it returns is \<open>null\<close> or a
  result whose reachable stations are the entries of the merged map.
\<close>

theorem cross_start_minimum:
  "(mergeReachable maxT g ns [] = Some m \<longrightarrow>
      distinct (map fst m)
      \<and> map_of m k =
          (if startTotals maxT g ns k = [] then None
           else Some (Min (set (startTotals maxT g ns k)))))
   \<and> (createIsochrone turf loc net maxT wd mx = Some (Some res) \<longrightarrow>
        distinct (map reachableStation.stationId (reachableStations res))
        \<and> map_of (map (\<lambda>r. (reachableStation.stationId r, reachableStation.travelTimeSec r))
                    (reachableStations res)) k =
            (let totals = startTotals maxT (buildGraph net)
                            (findNearestStations turf (latitude loc) (longitude loc)
                               (stations net) mx) k
             in if totals = [] then None else Some (Min (set totals))))
   \<and> (nonneg_graph g \<longrightarrow>
        (\<exists>m'. mergeReachable maxT g ns [] = Some m'
           \<and> distinct (map fst m')
           \<and> (\<forall>d. map_of m' d =
                  (if startTotals maxT g ns d = [] then None
                   else Some (Min (set (startTotals maxT g ns d)))))))
   \<and> (list_all (\<lambda>e. 0 \<le> travelTimeSec e) (edges net) \<longrightarrow>
        nonneg_graph (buildGraph net)
        \<and> (\<exists>m'. mergeReachable maxT (buildGraph net)
                   (findNearestStations turf (latitude loc) (longitude loc) (stations net) mx) [] =
                 Some m'
               \<and> (createIsochrone turf loc net maxT wd mx = Some None
                    \<or> (\<exists>p. createIsochrone turf loc net maxT wd mx =
                            Some (Some \<lparr>polygon = p,
                                        reachableStations =
                                          map (\<lambda>entry. \<lparr>reachableStation.stationId = fst entry,
                                                         reachableStation.travelTimeSec = snd entry\<rparr>)
                                            m',
                                        totalStations = length m'\<rparr>)))))"
proof (intro conjI impI)
  assume m: "mergeReachable maxT g ns [] = Some m"
  show "distinct (map fst m)"
    using mergeReachable_distinct [OF m] by simp
  show "map_of m k =
          (if startTotals maxT g ns k = [] then None
           else Some (Min (set (startTotals maxT g ns k))))"
    by (rule mergeReachable_Min [OF m])
next
  assume "createIsochrone turf loc net maxT wd mx = Some (Some res)"
  then obtain m' where m': "mergeReachable maxT (buildGraph net)
       (findNearestStations turf (latitude loc) (longitude loc) (stations net) mx) [] = Some m'"
    and res: "reachableStations res =
       map (\<lambda>entry. \<lparr>reachableStation.stationId = fst entry,
                      reachableStation.travelTimeSec = snd entry\<rparr>) m'"
    using createIsochrone_result by blast
  have pairs: "map (\<lambda>r. (reachableStation.stationId r, reachableStation.travelTimeSec r))
      (reachableStations res) = m'"
    unfolding res by (simp add: comp_def)
  have ids: "map reachableStation.stationId (reachableStations res) = map fst m'"
    unfolding res by (simp add: comp_def)
  show "distinct (map reachableStation.stationId (reachableStations res))"
    unfolding ids using mergeReachable_distinct [OF m'] by simp
  show "map_of (map (\<lambda>r. (reachableStation.stationId r, reachableStation.travelTimeSec r))
                    (reachableStations res)) k =
            (let totals = startTotals maxT (buildGraph net)
                            (findNearestStations turf (latitude loc) (longitude loc)
                               (stations net) mx) k
             in if totals = [] then None else Some (Min (set totals)))"
    unfolding pairs Let_def by (rule mergeReachable_Min [OF m'])
next
  assume g: "nonneg_graph g"
  obtain m' where m': "mergeReachable maxT g ns [] = Some m'"
    using mergeReachable_returns [OF g] by blast
  have "distinct (map fst m')"
    using mergeReachable_distinct [OF m'] by simp
  moreover have "\<forall>d. map_of m' d =
      (if startTotals maxT g ns d = [] then None
       else Some (Min (set (startTotals maxT g ns d))))"
    using mergeReachable_Min [OF m'] by blast
  ultimately show "\<exists>m'. mergeReachable maxT g ns [] = Some m'
           \<and> distinct (map fst m')
           \<and> (\<forall>d. map_of m' d =
                  (if startTotals maxT g ns d = [] then None
                   else Some (Min (set (startTotals maxT g ns d)))))"
    using m' by blast
next
  assume e: "list_all (\<lambda>e. 0 \<le> travelTimeSec e) (edges net)"
  show "nonneg_graph (buildGraph net)"
    by (rule nonneg_buildGraph [OF e])
  show "\<exists>m'. mergeReachable maxT (buildGraph net)
                   (findNearestStations turf (latitude loc) (longitude loc) (stations net) mx) [] =
                 Some m'
               \<and> (createIsochrone turf loc net maxT wd mx = Some None
                    \<or> (\<exists>p. createIsochrone turf loc net maxT wd mx =
                            Some (Some \<lparr>polygon = p,
                                        reachableStations =
                                          map (\<lambda>entry. \<lparr>reachableStation.stationId = fst entry,
                                                         reachableStation.travelTimeSec = snd entry\<rparr>)
                                            m',
                                        totalStations = length m'\<rparr>)))"
    by (rule createIsochrone_returns [OF nonneg_buildGraph [OF e]])
qed

theorem cross_start_minimum_witness:
  "mergeReachable 900 (buildGraph line_network)
      (findNearestStations plane_turf (latitude (office (2 / 5))) (longitude (office (2 / 5)))
         (stations line_network) 1) [] = Some [(''A'', 480), (''B'', 540), (''C'', 660)]
   \<and> startTotals 900 (buildGraph line_network)
        (findNearestStations plane_turf (latitude (office (2 / 5))) (longitude (office (2 / 5)))
           (stations line_network) 1) ''C'' = [660, 840]
   \<and> distinct (map fst [(''A'', 480 :: int), (''B'', 540), (''C'', 660)])
   \<and> map_of [(''A'', 480), (''B'', 540), (''C'', 660)] ''C'' =
       (if startTotals 900 (buildGraph line_network)
             (findNearestStations plane_turf (latitude (office (2 / 5)))
                (longitude (office (2 / 5))) (stations line_network) 1) ''C'' = []
        then None
        else Some (Min (set (startTotals 900 (buildGraph line_network)
               (findNearestStations plane_turf (latitude (office (2 / 5)))
                  (longitude (office (2 / 5))) (stations line_network) 1) ''C''))))
   \<and> createIsochrone plane_turf (office (2 / 5)) line_network 900 (1 / 2) 1 =
       Some (Some isochrone_900)
   \<and> distinct (map reachableStation.stationId (reachableStations isochrone_900))
   \<and> map_of (map (\<lambda>r. (reachableStation.stationId r, reachableStation.travelTimeSec r))
               (reachableStations isochrone_900)) ''C'' =
       (let totals = startTotals 900 (buildGraph line_network)
                       (findNearestStations plane_turf (latitude (office (2 / 5)))
                          (longitude (office (2 / 5))) (stations line_network) 1) ''C''
        in if totals = [] then None else Some (Min (set totals)))
   \<and> nonneg_graph (buildGraph line_network)
   \<and> (\<exists>m'. mergeReachable 900 (buildGraph line_network)
             (findNearestStations plane_turf (latitude (office (2 / 5)))
                (longitude (office (2 / 5))) (stations line_network) 1) [] = Some m'
          \<and> distinct (map fst m')
          \<and> (\<forall>d. map_of m' d =
                 (if startTotals 900 (buildGraph line_network)
                       (findNearestStations plane_turf (latitude (office (2 / 5)))
                          (longitude (office (2 / 5))) (stations line_network) 1) d = []
                  then None
                  else Some (Min (set (startTotals 900 (buildGraph line_network)
                         (findNearestStations plane_turf (latitude (office (2 / 5)))
                            (longitude (office (2 / 5))) (stations line_network) 1) d))))))
   \<and> list_all (\<lambda>e. 0 \<le> travelTimeSec e) (edges line_network)
   \<and> (\<exists>m'. mergeReachable 900 (buildGraph line_network)
             (findNearestStations plane_turf (latitude (office (2 / 5)))
                (longitude (office (2 / 5))) (stations line_network) 1) [] = Some m'
          \<and> (createIsochrone plane_turf (office (2 / 5)) line_network 900 (1 / 2) 1 = Some None
               \<or> (\<exists>p. createIsochrone plane_turf (office (2 / 5)) line_network 900 (1 / 2) 1 =
                       Some (Some \<lparr>polygon = p,
                                   reachableStations =
                                     map (\<lambda>entry. \<lparr>reachableStation.stationId = fst entry,
                                                    reachableStation.travelTimeSec = snd entry\<rparr>)
                                       m',
                                   totalStations = length m'\<rparr>))))"
proof -
  let ?ns = "findNearestStations plane_turf (latitude (office (2 / 5)))
      (longitude (office (2 / 5))) (stations line_network) 1"
  note inst = cross_start_minimum [where maxT = 900 and g = "buildGraph line_network"
      and ns = ?ns and m = "[(''A'', 480), (''B'', 540), (''C'', 660)]" and k = "''C''"
      and turf = plane_turf and loc = "office (2 / 5)" and net = line_network
      and wd = "1 / 2" and mx = 1 and res = isochrone_900]
  have merged: "mergeReachable 900 (buildGraph line_network) ?ns [] =
      Some [(''A'', 480), (''B'', 540), (''C'', 660)]"
    by code_simp
  have totals: "startTotals 900 (buildGraph line_network) ?ns ''C'' = [660, 840]"
    by code_simp
  have run: "createIsochrone plane_turf (office (2 / 5)) line_network 900 (1 / 2) 1 =
      Some (Some isochrone_900)"
    by code_simp
  have pos: "nonneg_graph (buildGraph line_network)"
    by code_simp
  have times: "list_all (\<lambda>e. 0 \<le> travelTimeSec e) (edges line_network)"
    by code_simp
  note a = inst [THEN conjunct1, THEN mp, OF merged]
  note b = inst [THEN conjunct2, THEN conjunct1, THEN mp, OF run]
  note c = inst [THEN conjunct2, THEN conjunct2, THEN conjunct1, THEN mp, OF pos]
  note d = inst [THEN conjunct2, THEN conjunct2, THEN conjunct2, THEN mp, OF times]
  from merged totals a [THEN conjunct1] a [THEN conjunct2] run b [THEN conjunct1]
    b [THEN conjunct2] pos c times d [THEN conjunct2]
  show ?thesis
    by (intro conjI)
qed

end
